theory Spec2Isabelle
  imports Complex_Main "HOL-Library.Sublist"
begin

section \<open>Data model of routing/route.cpp\<close>

text \<open>
  The declarations of \<^verbatim>\<open>routing/route.hpp\<close>, \<^verbatim>\<open>routing/turns.hpp\<close> and
  \<^verbatim>\<open>traffic/speed_groups.hpp\<close> are not among the sources. The types below keep the
  members that \<^verbatim>\<open>route.cpp\<close> reads and writes. A \<^verbatim>\<open>double\<close> is idealised as a
  \<open>real\<close>; vertex indices (\<^verbatim>\<open>size_t\<close>, \<^verbatim>\<open>uint32_t\<close>) are naturals, and the places
  where the code narrows to 32 bits carry the reduction modulo \<open>2 ^ 32\<close> explicitly.
\<close>

text \<open>Modelled from the spec: the turn directions of \<^verbatim>\<open>routing/turns.hpp\<close> (section 3: a
  turn direction, one of them the "destination reached" marker) and the congestion classes
  of \<^verbatim>\<open>traffic/speed_groups.hpp\<close> (section 3: a small congestion enum including
  "unknown"). \<^verbatim>\<open>route.cpp\<close> names \<open>ReachedYourDestination\<close> and \<open>Unknown\<close> only; the other
  constructors stand for the remaining values.\<close>

datatype TurnDirection =
  NoTurn | GoStraight | TurnRight | TurnSharpRight | TurnSlightRight
  | TurnLeft | TurnSharpLeft | TurnSlightLeft | UTurnLeft | UTurnRight
  | TakeTheExit | EnterRoundAbout | LeaveRoundAbout | StayOnRoundAbout
  | StartAtEndOfStreet | ReachedYourDestination

datatype SpeedGroup = G0 | G1 | G2 | G3 | G4 | G5 | TempBlock | Unknown

record TurnItem =
  m_index :: nat
  m_turn :: TurnDirection

text \<open>A time item is a vertex index with the seconds from the start of the route; the
  code computes with the seconds as \<^verbatim>\<open>double\<close> (lines 141, 411 and 456).\<close>

type_synonym PointD = "real \<times> real"
type_synonym TTimeItem = "nat \<times> real"
type_synonym TStreetItem = "nat \<times> string"

text \<open>\<^verbatim>\<open>FollowedPolyline::Iter\<close>: a point on the path and the index of the vertex that
  starts the segment it lies on.\<close>

record Iter =
  m_pt :: PointD
  m_ind :: nat

text \<open>\<^verbatim>\<open>FollowedPolyline\<close>: the vertices and the projector cursor.\<close>

record FollowedPolyline =
  m_points :: "PointD list"
  m_current :: Iter

record RoutingSettings =
  m_matchRoute :: bool
  m_matchingThresholdM :: real
  m_keepPedestrianInfo :: bool

record Route =
  m_routingSettings :: RoutingSettings
  m_poly :: FollowedPolyline
  m_turns :: "TurnItem list"
  m_times :: "TTimeItem list"
  m_streets :: "TStreetItem list"
  m_altitudes :: "int list"
  m_traffic :: "SpeedGroup list"
  m_currentTime :: real

text \<open>Failed \<^verbatim>\<open>CHECK\<close>s and \<^verbatim>\<open>ASSERT\<close>s (debug and test builds abort on both) and reads
  outside a vector are results of the model.\<close>

datatype error = CheckFailed | AssertFailed | OutOfRange

definition u32 :: "nat \<Rightarrow> nat" where
  "u32 n = n mod 2 ^ 32"


section \<open>Collaborators\<close>

text \<open>The geometry library, the numeric helpers and the validity predicates are declared
  outside \<^verbatim>\<open>route.cpp\<close>. They are parameters of the model:
  \<^item> \<open>DistanceOnEarth\<close> is \<^verbatim>\<open>MercatorBounds::DistanceOnEarth\<close>, \<open>Length\<close> is
    \<^verbatim>\<open>m2::PointD::Length\<close>;
  \<^item> \<open>AlmostZero d\<close> is \<^verbatim>\<open>my::AlmostEqualULPs(d, 0.)\<close> and \<open>AlmostEqualPt\<close> is
    \<^verbatim>\<open>m2::AlmostEqualULPs\<close> on points;
  \<^item> \<open>RouteIsValid n\<close> is \<^verbatim>\<open>Route::IsValid()\<close> of a route whose path has \<open>n\<close> vertices, and
    \<open>PolyIsValid\<close> is \<^verbatim>\<open>FollowedPolyline::IsValid()\<close>;
  \<^item> \<open>FromLatLon\<close>, \<open>YToLat\<close>, \<open>XToLon\<close> are the conversions of \<^verbatim>\<open>MercatorBounds\<close>,
    \<open>AngleToDeg p q\<close> is \<^verbatim>\<open>my::RadToDeg(ang::AngleTo(p, q))\<close>, \<open>AngleToBearing\<close> is
    \<^verbatim>\<open>location::AngleToBearing\<close>;
  \<^item> \<open>MercatorDistanceFromBegin\<close> is the polyline's member of that name;
  \<^item> \<open>kInvalidAltitude\<close> is \<^verbatim>\<open>feature::kInvalidAltitude\<close>.\<close>

record collaborators =
  DistanceOnEarth :: "PointD \<Rightarrow> PointD \<Rightarrow> real"
  Length :: "PointD \<Rightarrow> PointD \<Rightarrow> real"
  AlmostZero :: "real \<Rightarrow> bool"
  AlmostEqualPt :: "PointD \<Rightarrow> PointD \<Rightarrow> bool"
  RouteIsValid :: "nat \<Rightarrow> bool"
  PolyIsValid :: "FollowedPolyline \<Rightarrow> bool"
  FromLatLon :: "real \<Rightarrow> real \<Rightarrow> PointD"
  YToLat :: "real \<Rightarrow> real"
  XToLon :: "real \<Rightarrow> real"
  AngleToDeg :: "PointD \<Rightarrow> PointD \<Rightarrow> real"
  AngleToBearing :: "real \<Rightarrow> real"
  MercatorDistanceFromBegin :: "FollowedPolyline \<Rightarrow> real"
  kInvalidAltitude :: int

definition GetSize :: "FollowedPolyline \<Rightarrow> nat" where
  "GetSize poly = length (m_points poly)"

definition IsValid :: "collaborators \<Rightarrow> Route \<Rightarrow> bool" where
  "IsValid env r = RouteIsValid env (GetSize (m_poly r))"

text \<open>Modelled from the spec: the members of \<^verbatim>\<open>FollowedPolyline\<close> that give the arc
  length between two cursors and the cursor of a vertex (section 6: arc-length-between-cursors
  distance, iterator-by-index; section 8: the total distance is the sum of the consecutive
  vertex-to-vertex lengths). \<open>vertexArc\<close> is the arc length from the start of the path to
  vertex \<open>i\<close>, \<open>iterArc\<close> the arc length to a cursor, which lies on the segment that starts
  at its vertex.\<close>

fun vertexArc :: "collaborators \<Rightarrow> PointD list \<Rightarrow> nat \<Rightarrow> real" where
  "vertexArc env pts 0 = 0"
| "vertexArc env pts (Suc i) = vertexArc env pts i + DistanceOnEarth env (pts ! i) (pts ! Suc i)"

definition iterArc :: "collaborators \<Rightarrow> FollowedPolyline \<Rightarrow> Iter \<Rightarrow> real" where
  "iterArc env poly it =
     vertexArc env (m_points poly) (m_ind it)
       + DistanceOnEarth env (m_points poly ! m_ind it) (m_pt it)"

definition GetDistanceM :: "collaborators \<Rightarrow> FollowedPolyline \<Rightarrow> Iter \<Rightarrow> Iter \<Rightarrow> real" where
  "GetDistanceM env poly it1 it2 = iterArc env poly it2 - iterArc env poly it1"

definition GetIterToIndex :: "FollowedPolyline \<Rightarrow> nat \<Rightarrow> error + Iter" where
  "GetIterToIndex poly i =
     (if i < GetSize poly then Inr \<lparr>m_pt = m_points poly ! i, m_ind = i\<rparr> else Inl OutOfRange)"

definition GetTotalDistanceM :: "collaborators \<Rightarrow> FollowedPolyline \<Rightarrow> real" where
  "GetTotalDistanceM env poly = vertexArc env (m_points poly) (GetSize poly - 1)"

section \<open>Binary search\<close>

text \<open>\<^verbatim>\<open>std::upper_bound(first, last, value, comp)\<close> as the standard library implements
  it: a bisection on the half-open range of \<open>len\<close> elements that starts at position
  \<open>first\<close>. The predicate \<open>p\<close> is \<^verbatim>\<open>comp(value, element)\<close>. The result is a position;
  the length of the list stands for the past-the-end iterator.\<close>

function upper_bound_from :: "('a \<Rightarrow> bool) \<Rightarrow> 'a list \<Rightarrow> nat \<Rightarrow> nat \<Rightarrow> nat" where
  "upper_bound_from p xs first len =
     (if len = 0 then first
      else let half = len div 2; mid = first + half
           in if p (xs ! mid) then upper_bound_from p xs first half
              else upper_bound_from p xs (mid + 1) (len - half - 1))"
  by pat_completeness auto
termination
  by (relation "measure (\<lambda>(p, xs, first, len). len)") auto

definition upper_bound :: "('a \<Rightarrow> bool) \<Rightarrow> 'a list \<Rightarrow> nat" where
  "upper_bound p xs = upper_bound_from p xs 0 (length xs)"

section \<open>Turn queries\<close>

text \<open>\<^verbatim>\<open>Route::GetCurrentTurn() const\<close> (lines 164-175). The iterator it returns is a
  position in \<open>m_turns\<close>.\<close>

definition GetCurrentTurn :: "Route \<Rightarrow> error + nat" where
  "GetCurrentTurn r =
     (if m_turns r = [] then Inl AssertFailed
      else let t_index = u32 (m_ind (m_current (m_poly r)))
           in Inr (upper_bound (\<lambda>rhs. t_index < m_index rhs) (m_turns r)))"

text \<open>\<^verbatim>\<open>Route::GetCurrentTurn(double &, TurnItem &) const\<close> (lines 224-238): the pair of
  the two output parameters, when the method returns \<^verbatim>\<open>true\<close>.\<close>

definition GetCurrentTurnDist :: "collaborators \<Rightarrow> Route \<Rightarrow> error + (real \<times> TurnItem)" where
  "GetCurrentTurnDist env r =
     (case GetCurrentTurn r of
        Inl e \<Rightarrow> Inl e
      | Inr it \<Rightarrow>
          if it = length (m_turns r) then Inl AssertFailed
          else let turn = m_turns r ! it; segIdx = m_index turn
               in case GetIterToIndex (m_poly r) segIdx of
                    Inl e \<Rightarrow> Inl e
                  | Inr target \<Rightarrow>
                      Inr (GetDistanceM env (m_poly r) (m_current (m_poly r)) target, turn))"

section \<open>Time estimator\<close>






section \<open>Street names\<close>

text \<open>The loop of \<^verbatim>\<open>Route::GetCurrentStreetNameIterAfter\<close> (lines 214-221), with
  \<open>prev\<close> and \<open>cur\<close> the positions of \<^verbatim>\<open>prevIter\<close> and \<^verbatim>\<open>curIter\<close>. The loop condition
  reads \<^verbatim>\<open>curIter->first\<close>; at the past-the-end position that read is outside the
  vector.\<close>

function street_walk :: "TStreetItem list \<Rightarrow> nat \<Rightarrow> nat \<Rightarrow> nat \<Rightarrow> error + nat" where
  "street_walk streets ind prev cur =
     (if cur \<ge> length streets then Inl OutOfRange
      else if fst (streets ! cur) < ind then
        (if cur + 1 = length streets then Inr (length streets)
         else street_walk streets ind (prev + 1) (cur + 1))
      else Inr (if fst (streets ! cur) = ind then cur else prev))"
  by pat_completeness auto
termination
  by (relation "measure (\<lambda>(streets, ind, prev, cur). length streets - cur)") auto

definition GetCurrentStreetNameIterAfter :: "Route \<Rightarrow> Iter \<Rightarrow> error + nat" where
  "GetCurrentStreetNameIterAfter r iter =
     (if m_streets r = [] then Inr (length (m_streets r))
      else street_walk (m_streets r) (m_ind iter) 0 1)"

text \<open>\<^verbatim>\<open>Route::GetCurrentStreetName\<close> (lines 177-184): the value of the output parameter.\<close>

definition GetCurrentStreetName :: "Route \<Rightarrow> error + string" where
  "GetCurrentStreetName r =
     (case GetCurrentStreetNameIterAfter r (m_current (m_poly r)) of
        Inl e \<Rightarrow> Inl e
      | Inr it \<Rightarrow> Inr (if it = length (m_streets r) then [] else snd (m_streets r ! it)))"

definition kSteetNameLinkMeters :: real where
  "kSteetNameLinkMeters = 400"

text \<open>The loop of \<^verbatim>\<open>Route::GetStreetNameAfterIdx\<close> (lines 193-199) from position \<open>it\<close>.\<close>

function street_scan :: "collaborators \<Rightarrow> Route \<Rightarrow> Iter \<Rightarrow> nat \<Rightarrow> error + string" where
  "street_scan env r polyIter it =
     (if it \<ge> length (m_streets r) then Inr []
      else if snd (m_streets r ! it) \<noteq> [] then
        (case GetIterToIndex (m_poly r) (max (fst (m_streets r ! it)) (u32 (m_ind polyIter))) of
           Inl e \<Rightarrow> Inl e
         | Inr target \<Rightarrow>
             Inr (if GetDistanceM env (m_poly r) polyIter target < kSteetNameLinkMeters
                  then snd (m_streets r ! it) else []))
      else street_scan env r polyIter (it + 1))"
  by pat_completeness auto
termination
  by (relation "measure (\<lambda>(env, r, polyIter, it). length (m_streets r) - it)") auto

text \<open>\<^verbatim>\<open>Route::GetStreetNameAfterIdx\<close> (lines 186-200).\<close>

definition GetStreetNameAfterIdx :: "collaborators \<Rightarrow> Route \<Rightarrow> nat \<Rightarrow> error + string" where
  "GetStreetNameAfterIdx env r idx =
     (case GetIterToIndex (m_poly r) idx of
        Inl e \<Rightarrow> Inl e
      | Inr polyIter \<Rightarrow>
          (case GetCurrentStreetNameIterAfter r polyIter of
             Inl e \<Rightarrow> Inl e
           | Inr it \<Rightarrow> if it = length (m_streets r) then Inr [] else street_scan env r polyIter it))"

section \<open>Route merger\<close>

text \<open>Modelled from the spec: the members of \<^verbatim>\<open>FollowedPolyline\<close> that remove the last
  vertex, append another path and give the cursors of the first and of the last vertex
  (section 6: append, pop-last; section 4.4: remove the last vertex, append the path of
  \<open>B\<close>). The specification does not say what they do to the projector cursor; the model
  leaves it where it is.\<close>

definition PopBack :: "FollowedPolyline \<Rightarrow> FollowedPolyline" where
  "PopBack poly = poly\<lparr>m_points := butlast (m_points poly)\<rparr>"

definition Append :: "FollowedPolyline \<Rightarrow> FollowedPolyline \<Rightarrow> FollowedPolyline" where
  "Append poly other = poly\<lparr>m_points := m_points poly @ m_points other\<rparr>"

definition Begin :: "FollowedPolyline \<Rightarrow> error + Iter" where
  "Begin poly =
     (if m_points poly = [] then Inl OutOfRange
      else Inr \<lparr>m_pt = hd (m_points poly), m_ind = 0\<rparr>)"

definition End :: "FollowedPolyline \<Rightarrow> error + Iter" where
  "End poly =
     (if m_points poly = [] then Inl OutOfRange
      else Inr \<lparr>m_pt = last (m_points poly), m_ind = GetSize poly - 1\<rparr>)"

text \<open>\<^verbatim>\<open>Route::Update\<close> (lines 349-368). The simplified polyline it rebuilds is a cache
  that no query below reads; the model keeps the reset of the tracking clock.\<close>

definition Update :: "collaborators \<Rightarrow> Route \<Rightarrow> Route" where
  "Update env r = (if \<not> PolyIsValid env (m_poly r) then r else r\<lparr>m_currentTime := 0\<rparr>)"

text \<open>\<^verbatim>\<open>Route::AppendTraffic\<close> (lines 370-404); \<open>this\<close> is the route the method is called
  on. \<^verbatim>\<open>resize(n, Unknown)\<close> is applied to an empty vector only.\<close>

definition AppendTraffic :: "collaborators \<Rightarrow> Route \<Rightarrow> Route \<Rightarrow> error + Route" where
  "AppendTraffic env this route =
     (if \<not> IsValid env route then Inl CheckFailed
      else if m_traffic this = [] \<and> m_traffic route = [] then Inr this
      else if \<not> IsValid env this then Inr (this\<lparr>m_traffic := m_traffic route\<rparr>)
      else let traffic1 = (if m_traffic this = []
                           then replicate (GetSize (m_poly this)) Unknown
                           else m_traffic this)
           in if length traffic1 \<noteq> GetSize (m_poly this) then Inl CheckFailed
              else if m_traffic route = [] then
                (if \<not> GetSize (m_poly route) \<ge> 1 then Inl CheckFailed
                 else Inr (this\<lparr>m_traffic :=
                             traffic1 @ replicate (GetSize (m_poly route) - 1) Unknown\<rparr>))
              else Inr (this\<lparr>m_traffic := traffic1 @ m_traffic route\<rparr>))"

text \<open>Lines 412-428 of \<^verbatim>\<open>Route::AppendRoute\<close>: the end point of a non-empty path is
  removed together with the last turn and the last time entry.\<close>

definition RemoveEndPoint :: "collaborators \<Rightarrow> Route \<Rightarrow> Route \<Rightarrow> error + Route" where
  "RemoveEndPoint env this route =
     (if GetSize (m_poly this) \<noteq> 0 then
        if m_turns this = [] then Inl AssertFailed
        else if m_times this = [] then Inl AssertFailed
        else if m_streets this \<noteq> []
                \<and> \<not> u32 (fst (last (m_streets this)) + 1) < GetSize (m_poly this)
          then Inl AssertFailed
        else case End (m_poly this) of
               Inl e \<Rightarrow> Inl e
             | Inr e1 \<Rightarrow>
                 (case Begin (m_poly route) of
                    Inl e \<Rightarrow> Inl e
                  | Inr b2 \<Rightarrow>
                      if \<not> DistanceOnEarth env (m_pt e1) (m_pt b2) < 2 then Inl AssertFailed
                      else if m_turns this = [] then Inl CheckFailed
                      else if m_turn (last (m_turns this)) \<noteq> ReachedYourDestination
                        then Inl AssertFailed
                      else if m_times this = [] then Inl CheckFailed
                      else Inr (this\<lparr>m_poly := PopBack (m_poly this),
                                     m_turns := butlast (m_turns this),
                                     m_times := butlast (m_times this)\<rparr>))
      else Inr this)"

text \<open>The three loops of lines 432-458; \<open>acc\<close> is the table of the route that grows.\<close>

fun AppendTurns :: "nat \<Rightarrow> TurnItem list \<Rightarrow> TurnItem list \<Rightarrow> TurnItem list" where
  "AppendTurns indexOffset acc [] = acc"
| "AppendTurns indexOffset acc (t # ts) =
     (if m_index t = 0 then AppendTurns indexOffset acc ts
      else AppendTurns indexOffset (acc @ [t\<lparr>m_index := u32 (m_index t + indexOffset)\<rparr>]) ts)"

fun AppendStreets :: "nat \<Rightarrow> TStreetItem list \<Rightarrow> TStreetItem list \<Rightarrow> TStreetItem list" where
  "AppendStreets indexOffset acc [] = acc"
| "AppendStreets indexOffset acc (s # ss) =
     (if fst s = 0 then AppendStreets indexOffset acc ss
      else AppendStreets indexOffset (acc @ [(u32 (fst s + indexOffset), snd s)]) ss)"

fun AppendTimes :: "nat \<Rightarrow> real \<Rightarrow> TTimeItem list \<Rightarrow> TTimeItem list \<Rightarrow> TTimeItem list" where
  "AppendTimes indexOffset estimatedTime acc [] = acc"
| "AppendTimes indexOffset estimatedTime acc (t # ts) =
     (if fst t = 0 then AppendTimes indexOffset estimatedTime acc ts
      else AppendTimes indexOffset estimatedTime
             (acc @ [(u32 (fst t + indexOffset), snd t + estimatedTime)]) ts)"

text \<open>\<^verbatim>\<open>Route::AppendRoute\<close> (lines 406-468).\<close>

definition AppendRoute :: "collaborators \<Rightarrow> Route \<Rightarrow> Route \<Rightarrow> error + Route" where
  "AppendRoute env this route =
     (if \<not> IsValid env route then Inr this
      else let estimatedTime = (if m_times this = [] then 0 else snd (last (m_times this)))
           in case RemoveEndPoint env this route of
                Inl e \<Rightarrow> Inl e
              | Inr this1 \<Rightarrow>
                  let indexOffset = GetSize (m_poly this1);
                      this2 = this1\<lparr>
                        m_turns := AppendTurns indexOffset (m_turns this1) (m_turns route),
                        m_streets := AppendStreets indexOffset (m_streets this1) (m_streets route),
                        m_times := AppendTimes indexOffset estimatedTime (m_times this1)
                                     (m_times route)\<rparr>
                  in case AppendTraffic env this2 route of
                       Inl e \<Rightarrow> Inl e
                     | Inr this3 \<Rightarrow>
                         let this4 = this3\<lparr>m_poly := Append (m_poly this3) (m_poly route)\<rparr>
                         in if m_traffic this4 \<noteq> []
                               \<and> length (m_traffic this4) + 1 \<noteq> GetSize (m_poly this4)
                            then Inl CheckFailed
                            else Inr (Update env this4))"

section \<open>Segment exporter\<close>

text \<open>The members of \<^verbatim>\<open>Route::SegmentInfo\<close> that \<^verbatim>\<open>GetSubrouteInfo\<close> fills from the
  route. A default-constructed \<^verbatim>\<open>TurnItem\<close> is \<open>None\<close>.\<close>

record SegmentInfo =
  seg_turn :: "TurnItem option"
  seg_point :: PointD
  seg_altitude :: int
  seg_streetName :: string
  seg_distFromBeginningMeters :: real
  seg_distFromBeginningMerc :: real
  seg_timeFromBeginningS :: real
  seg_traffic :: SpeedGroup

definition GetSubrouteCount :: "collaborators \<Rightarrow> Route \<Rightarrow> nat" where
  "GetSubrouteCount env r = (if IsValid env r then 1 else 0)"

text \<open>The loop of lines 508-530, entered at vertex \<open>i\<close>. \<^verbatim>\<open>m_turns[turnItemIdx]\<close> and
  \<^verbatim>\<open>m_times[timeIdx]\<close> are read at every iteration and \<^verbatim>\<open>m_times[timeIdx - 1]\<close> when
  the record is built; a position outside the vector is \<open>OutOfRange\<close>. The checks
  before the loop keep \<^verbatim>\<open>m_altitudes[i]\<close> and \<^verbatim>\<open>m_traffic[i - 1]\<close> inside their
  vectors.\<close>

function SubrouteLoop ::
  "collaborators \<Rightarrow> Route \<Rightarrow> nat \<Rightarrow> nat \<Rightarrow> nat \<Rightarrow> real \<Rightarrow> real \<Rightarrow> SegmentInfo list
    \<Rightarrow> error + SegmentInfo list" where
  "SubrouteLoop env r i turnItemIdx timeIdx distM distMerc info =
     (if \<not> i < length (m_points (m_poly r)) then Inr info
      else if turnItemIdx \<ge> length (m_turns r) then Inl OutOfRange
      else if \<not> (if m_index (m_turns r ! turnItemIdx) = i then turnItemIdx + 1 else turnItemIdx)
                   \<le> length (m_turns r) then Inl CheckFailed
      else if timeIdx \<ge> length (m_times r) then Inl OutOfRange
      else if (if fst (m_times r ! timeIdx) = i then timeIdx + 1 else timeIdx) = 0
        then Inl OutOfRange
      else SubrouteLoop env r (i + 1)
             (if m_index (m_turns r ! turnItemIdx) = i then turnItemIdx + 1 else turnItemIdx)
             (if fst (m_times r ! timeIdx) = i then timeIdx + 1 else timeIdx)
             (distM + DistanceOnEarth env (m_points (m_poly r) ! (i - 1)) (m_points (m_poly r) ! i))
             (distMerc + Length env (m_points (m_poly r) ! (i - 1)) (m_points (m_poly r) ! i))
             (info @ [\<lparr>
                seg_turn = (if m_index (m_turns r ! turnItemIdx) = i
                            then Some (m_turns r ! turnItemIdx) else None),
                seg_point = m_points (m_poly r) ! i,
                seg_altitude = (if m_altitudes r = [] then kInvalidAltitude env
                                else m_altitudes r ! i),
                seg_streetName = [],
                seg_distFromBeginningMeters =
                  distM + DistanceOnEarth env (m_points (m_poly r) ! (i - 1)) (m_points (m_poly r) ! i),
                seg_distFromBeginningMerc =
                  distMerc + Length env (m_points (m_poly r) ! (i - 1)) (m_points (m_poly r) ! i),
                seg_timeFromBeginningS =
                  snd (m_times r ! ((if fst (m_times r ! timeIdx) = i then timeIdx + 1 else timeIdx) - 1)),
                seg_traffic = (if m_traffic r = [] then Unknown else m_traffic r ! (i - 1))\<rparr>]))"
  by pat_completeness auto
termination
  by (relation "measure (\<lambda>(env, r, i, turnItemIdx, timeIdx, distM, distMerc, info).
        length (m_points (m_poly r)) - i)") auto

text \<open>\<^verbatim>\<open>Route::GetSubrouteInfo\<close> (lines 474-531): the value of the output vector.
  \<^verbatim>\<open>std::is_sorted\<close> with the comparison \<^verbatim>\<open><\<close> accepts equal neighbours.\<close>

definition GetSubrouteInfo :: "collaborators \<Rightarrow> Route \<Rightarrow> nat \<Rightarrow> error + SegmentInfo list" where
  "GetSubrouteInfo env r segmentIdx =
     (let polySz = GetSize (m_poly r)
      in if \<not> segmentIdx < GetSubrouteCount env r then Inl CheckFailed
         else if \<not> IsValid env r then Inl CheckFailed
         else if m_turns r = [] then Inl CheckFailed
         else if \<not> m_index (last (m_turns r)) < polySz then Inl CheckFailed
         else if \<not> sorted (map m_index (m_turns r)) then Inl CheckFailed
         else if m_altitudes r \<noteq> [] \<and> length (m_altitudes r) \<noteq> polySz then Inl CheckFailed
         else if m_times r = [] then Inl CheckFailed
         else if \<not> fst (last (m_times r)) < polySz then Inl CheckFailed
         else if \<not> sorted (map fst (m_times r)) then Inl CheckFailed
         else if m_traffic r \<noteq> [] \<and> length (m_traffic r) + 1 \<noteq> polySz then Inl CheckFailed
         else SubrouteLoop env r 1
                (if m_index (m_turns r ! 0) = 0 then 1 else 0)
                (if fst (m_times r ! 0) \<noteq> 0 then 1 else 0)
                0 0 [])"

section \<open>Location matcher\<close>

text \<open>The members of \<^verbatim>\<open>location::GpsInfo\<close> that the route reads or writes.\<close>

record GpsInfo =
  m_latitude :: real
  m_longitude :: real
  m_bearing :: real
  m_speed :: real
  m_timestamp :: real
  m_horizontalAccuracy :: real

text \<open>Modelled from the spec: \<^verbatim>\<open>location::RouteMatchingInfo\<close>, the diagnostics sink that
  accepts (point, vertex index, arc length from the start) (section 6). The sink is the
  list of what it was given; \<^verbatim>\<open>Set\<close> adds one entry.\<close>

type_synonym RouteMatchingInfo = "(PointD \<times> nat \<times> real) list"

definition Set_info :: "RouteMatchingInfo \<Rightarrow> PointD \<Rightarrow> nat \<Rightarrow> real \<Rightarrow> RouteMatchingInfo" where
  "Set_info info pt ind d = info @ [(pt, ind, d)]"

text \<open>The \<^verbatim>\<open>do ... while\<close> loop of \<^verbatim>\<open>Route::GetPolySegAngle\<close> (lines 317-321) entered
  with index \<open>i\<close>: the final index and the final \<^verbatim>\<open>p2\<close>.\<close>

function seg_angle_loop :: "collaborators \<Rightarrow> PointD list \<Rightarrow> PointD \<Rightarrow> nat \<Rightarrow> nat \<times> PointD" where
  "seg_angle_loop env pts p1 i =
     (if AlmostEqualPt env p1 (pts ! i) then
        (if i + 1 < length pts then seg_angle_loop env pts p1 (i + 1) else (i + 1, pts ! i))
      else (i, pts ! i))"
  by pat_completeness auto
termination
  by (relation "measure (\<lambda>(env, pts, p1, i). length pts - i)") auto

text \<open>\<^verbatim>\<open>Route::GetPolySegAngle\<close> (lines 304-323).\<close>

definition GetPolySegAngle :: "collaborators \<Rightarrow> Route \<Rightarrow> nat \<Rightarrow> error + real" where
  "GetPolySegAngle env r ind =
     (let polySz = GetSize (m_poly r)
      in if ind + 1 \<ge> polySz then Inl AssertFailed
         else let p1 = m_points (m_poly r) ! ind;
                  res = seg_angle_loop env (m_points (m_poly r)) p1 (ind + 1)
              in Inr (if fst res = polySz then 0 else AngleToDeg env p1 (snd res)))"

text \<open>\<^verbatim>\<open>Route::MatchLocationToRoute\<close> (lines 325-342). The method is \<^verbatim>\<open>const\<close>; the
  result is the route after the call, the fix and the sink.\<close>

definition MatchLocationToRoute ::
  "collaborators \<Rightarrow> Route \<Rightarrow> GpsInfo \<Rightarrow> RouteMatchingInfo
    \<Rightarrow> error + (Route \<times> GpsInfo \<times> RouteMatchingInfo)" where
  "MatchLocationToRoute env r location routeMatchingInfo =
     (if PolyIsValid env (m_poly r) then
        let iter = m_current (m_poly r);
            locationMerc = FromLatLon env (m_latitude location) (m_longitude location);
            distFromRouteM = DistanceOnEarth env (m_pt iter) locationMerc
        in if distFromRouteM < m_matchingThresholdM (m_routingSettings r) then
             let location1 = location\<lparr>m_latitude := YToLat env (snd (m_pt iter)),
                                       m_longitude := XToLon env (fst (m_pt iter))\<rparr>;
                 info1 = Set_info routeMatchingInfo (m_pt iter) (m_ind iter)
                           (MercatorDistanceFromBegin env (m_poly r))
             in if m_matchRoute (m_routingSettings r) then
                  (case GetPolySegAngle env r (m_ind iter) of
                     Inl e \<Rightarrow> Inl e
                   | Inr angle \<Rightarrow>
                       Inr (r, location1\<lparr>m_bearing := AngleToBearing env angle\<rparr>, info1))
                else Inr (r, location1, info1)
           else Inr (r, location, routeMatchingInfo)
      else Inr (r, location, routeMatchingInfo))"

section \<open>Readings of the specification and example data\<close>

text \<open>The position of the first turn-table entry whose index is strictly greater than
  \<open>i\<close>; the length of the table when there is none.\<close>

definition first_turn_after :: "TurnItem list \<Rightarrow> nat \<Rightarrow> nat" where
  "first_turn_after turns i = length (takeWhile (\<lambda>t. m_index t \<le> i) turns)"



text \<open>Modelled from the spec: collaborators for a path that runs along the x axis of a
  plane measured in metres. \<^verbatim>\<open>Route::IsValid\<close> is declared in \<^verbatim>\<open>route.hpp\<close>; here a route
  is valid when its path is not empty (section 4.4: the merge does nothing if the path of
  \<open>B\<close> is empty; section 4.5: one subroute when the path is non-empty), which is also the
  reading under which the branch \<^verbatim>\<open>if (!IsValid())\<close> of \<^verbatim>\<open>AppendTraffic\<close> keeps one traffic
  entry per edge.\<close>

definition flat_env :: collaborators where
  "flat_env = \<lparr>
     DistanceOnEarth = (\<lambda>p q. \<bar>fst q - fst p\<bar>),
     Length = (\<lambda>p q. \<bar>fst q - fst p\<bar>),
     AlmostZero = (\<lambda>d. d = 0),
     AlmostEqualPt = (\<lambda>p q. p = q),
     RouteIsValid = (\<lambda>n. 0 < n),
     PolyIsValid = (\<lambda>poly. 1 < length (m_points poly)),
     FromLatLon = (\<lambda>lat lon. (lon, lat)),
     YToLat = (\<lambda>y. y),
     XToLon = (\<lambda>x. x),
     AngleToDeg = (\<lambda>p q. 0),
     AngleToBearing = (\<lambda>a. a),
     MercatorDistanceFromBegin = (\<lambda>poly. fst (m_pt (m_current poly))),
     kInvalidAltitude = - 32768\<rparr>"

definition mk_route ::
  "PointD list \<Rightarrow> Iter \<Rightarrow> TurnItem list \<Rightarrow> TTimeItem list \<Rightarrow> TStreetItem list
    \<Rightarrow> SpeedGroup list \<Rightarrow> Route" where
  "mk_route pts cur turns tms streets traffic = \<lparr>
     m_routingSettings = \<lparr>m_matchRoute = True, m_matchingThresholdM = 50,
                           m_keepPedestrianInfo = False\<rparr>,
     m_poly = \<lparr>m_points = pts, m_current = cur\<rparr>,
     m_turns = turns, m_times = tms, m_streets = streets,
     m_altitudes = [], m_traffic = traffic, m_currentTime = 0\<rparr>"

text \<open>Five collinear points 100 m apart (section 8).\<close>

definition pts5 :: "PointD list" where
  "pts5 = [(0, 0), (100, 0), (200, 0), (300, 0), (400, 0)]"

definition turn_route :: Route where
  "turn_route = mk_route pts5 \<lparr>m_pt = (200, 0), m_ind = 2\<rparr>
     [\<lparr>m_index = 2, m_turn = TurnLeft\<rparr>, \<lparr>m_index = 4, m_turn = ReachedYourDestination\<rparr>]
     [(4, 40)] [] []"

text \<open>The reading of section 4.1 for the current street: \<open>name\<close> is the name of an entry
  of the street table whose index is the greatest index that is at most \<open>i\<close>.\<close>

definition covering_street :: "TStreetItem list \<Rightarrow> nat \<Rightarrow> string \<Rightarrow> bool" where
  "covering_street streets i name =
     (\<exists>s \<in> set streets. fst s \<le> i \<and> (\<forall>t \<in> set streets. fst t \<le> i \<longrightarrow> fst t \<le> fst s)
        \<and> name = snd s)"

text \<open>The scenario of section 8: the street table \<open>[(0, A), (3, B)]\<close> on the five-point
  path, with the cursor on vertex \<open>i\<close>; and a table with a single entry.\<close>

definition street_route :: "nat \<Rightarrow> Route" where
  "street_route i = mk_route pts5 \<lparr>m_pt = (100 * real i, 0), m_ind = i\<rparr> [] []
     [(0, ''A''), (3, ''B'')] []"

definition one_street_route :: "nat \<Rightarrow> Route" where
  "one_street_route i = mk_route pts5 \<lparr>m_pt = (100 * real i, 0), m_ind = i\<rparr> [] []
     [(0, ''A'')] []"

text \<open>Two fixes for the route \<open>turn_route\<close>, whose cursor is at (200, 0) and whose matching
  threshold is 50 m: one 800 m from the cursor and one 10 m from it.\<close>

definition far_fix :: GpsInfo where
  "far_fix = \<lparr>m_latitude = 0, m_longitude = 1000, m_bearing = 90, m_speed = 0,
     m_timestamp = 0, m_horizontalAccuracy = 5\<rparr>"

definition near_fix :: GpsInfo where
  "near_fix = \<lparr>m_latitude = 0, m_longitude = 210, m_bearing = 90, m_speed = 0,
     m_timestamp = 0, m_horizontalAccuracy = 5\<rparr>"

text \<open>A route of three vertices and a continuation of three vertices that starts where
  the first one ends; the traffic arrays are parameters.\<close>

definition route_A :: "SpeedGroup list \<Rightarrow> Route" where
  "route_A traffic = mk_route [(0, 0), (100, 0), (200, 0)] \<lparr>m_pt = (0, 0), m_ind = 0\<rparr>
     [\<lparr>m_index = 1, m_turn = TurnLeft\<rparr>, \<lparr>m_index = 2, m_turn = ReachedYourDestination\<rparr>]
     [(1, 10), (2, 20)] [(0, ''A'')] traffic"

definition route_B :: "SpeedGroup list \<Rightarrow> Route" where
  "route_B traffic = mk_route [(200, 0), (300, 0), (400, 0)] \<lparr>m_pt = (200, 0), m_ind = 0\<rparr>
     [\<lparr>m_index = 0, m_turn = TurnRight\<rparr>, \<lparr>m_index = 1, m_turn = TurnRight\<rparr>,
      \<lparr>m_index = 2, m_turn = ReachedYourDestination\<rparr>]
     [(0, 0), (1, 7), (2, 15)] [(0, ''B''), (1, ''C'')] traffic"

text \<open>A route of two vertices that ends where \<open>route_B\<close> starts; a single vertex remains
  when its end point is removed.\<close>

definition route_A2 :: "SpeedGroup list \<Rightarrow> Route" where
  "route_A2 traffic = mk_route [(100, 0), (200, 0)] \<lparr>m_pt = (100, 0), m_ind = 0\<rparr>
     [\<lparr>m_index = 1, m_turn = ReachedYourDestination\<rparr>] [(1, 10)] [(0, ''A'')] traffic"

text \<open>The merge of \<open>route_A\<close> and \<open>route_B\<close>, with the merged traffic as a parameter.\<close>

definition merged_AB :: "SpeedGroup list \<Rightarrow> Route" where
  "merged_AB traffic = mk_route pts5 \<lparr>m_pt = (0, 0), m_ind = 0\<rparr>
     [\<lparr>m_index = 1, m_turn = TurnLeft\<rparr>, \<lparr>m_index = 3, m_turn = TurnRight\<rparr>,
      \<lparr>m_index = 4, m_turn = ReachedYourDestination\<rparr>]
     [(1, 10), (3, 27), (4, 35)] [(0, ''A''), (3, ''C'')] traffic"


text \<open>The position of the first checkpoint whose index is strictly greater than \<open>i\<close>; the
  length of the table when there is none.\<close>

definition first_checkpoint_after :: "TTimeItem list \<Rightarrow> nat \<Rightarrow> nat" where
  "first_checkpoint_after tms i = length (takeWhile (\<lambda>item. fst item \<le> i) tms)"




text \<open>The time of the most recent checkpoint at or before vertex \<open>k\<close> (section 4.5):
  the time of the last of the leading entries of the table whose index is at most \<open>k\<close>.
  A record of the segment export agrees with the tables when its metric distance is the
  arc length to vertex \<open>k\<close> and its time is that value; for a vertex before the first
  checkpoint, where there is no such entry, when its time is the time of the first
  checkpoint.\<close>

definition time_carried :: "TTimeItem list \<Rightarrow> nat \<Rightarrow> real" where
  "time_carried tms k = snd (last (takeWhile (\<lambda>t. fst t \<le> k) tms))"

definition exported_ok :: "collaborators \<Rightarrow> Route \<Rightarrow> nat \<Rightarrow> SegmentInfo \<Rightarrow> bool" where
  "exported_ok env r k s =
     (seg_timeFromBeginningS s =
        (if fst (hd (m_times r)) \<le> k then time_carried (m_times r) k else snd (hd (m_times r)))
      \<and> seg_distFromBeginningMeters s = vertexArc env (m_points (m_poly r)) k)"

declare upper_bound_from.simps [simp del]
declare street_walk.simps [simp del]
declare street_scan.simps [simp del]
declare SubrouteLoop.simps [simp del]
declare seg_angle_loop.simps [simp del]

section \<open>Properties\<close>

subsection \<open>Evaluation at numerals\<close>

lemma vertexArc_numeral:
  "vertexArc env pts (numeral k) =
     vertexArc env pts (pred_numeral k)
       + DistanceOnEarth env (pts ! pred_numeral k) (pts ! numeral k)"
  by (simp add: numeral_eq_Suc)

subsection \<open>Binary search\<close>

lemma upper_bound_from_spec:
  "first + len \<le> length xs \<Longrightarrow>
   \<forall>i j. i \<le> j \<and> j < length xs \<and> p (xs ! i) \<longrightarrow> p (xs ! j) \<Longrightarrow>
   \<forall>i<first. \<not> p (xs ! i) \<Longrightarrow>
   \<forall>i. first + len \<le> i \<and> i < length xs \<longrightarrow> p (xs ! i) \<Longrightarrow>
   upper_bound_from p xs first len \<le> length xs \<and>
   (\<forall>i < upper_bound_from p xs first len. \<not> p (xs ! i)) \<and>
   (\<forall>i. upper_bound_from p xs first len \<le> i \<and> i < length xs \<longrightarrow> p (xs ! i))"
proof (induction p xs first len rule: upper_bound_from.induct)
  case (1 p xs first len)
  show ?case
  proof (cases "len = 0")
    case True
    with "1.prems" show ?thesis by (simp add: upper_bound_from.simps[of p xs first 0])
  next
    case False
    define half where "half = len div 2"
    define mid where "mid = first + half"
    have hl: "half < len" using False by (simp add: half_def)
    have midlt: "mid < length xs" using hl "1.prems"(1) by (simp add: mid_def)
    show ?thesis
    proof (cases "p (xs ! mid)")
      case True
      have eq: "upper_bound_from p xs first len = upper_bound_from p xs first half"
        using False True by (simp add: upper_bound_from.simps[of p xs first len] Let_def half_def mid_def)
      have a: "first + half \<le> length xs" using midlt by (simp add: mid_def)
      have b: "\<forall>i. first + half \<le> i \<and> i < length xs \<longrightarrow> p (xs ! i)"
        using True "1.prems"(2) unfolding mid_def by blast
      show ?thesis unfolding eq
        using "1.IH"(1)[OF False half_def mid_def True a "1.prems"(2) "1.prems"(3) b] .
    next
      case F2: False
      have eq: "upper_bound_from p xs first len = upper_bound_from p xs (mid + 1) (len - half - 1)"
        using False F2 by (simp add: upper_bound_from.simps[of p xs first len] Let_def half_def mid_def)
      have a: "mid + 1 + (len - half - 1) \<le> length xs" using hl "1.prems"(1) by (simp add: mid_def)
      have b: "\<forall>i<mid + 1. \<not> p (xs ! i)"
      proof (intro allI impI)
        fix i assume "i < mid + 1"
        then have "i \<le> mid" by simp
        with F2 "1.prems"(2) midlt show "\<not> p (xs ! i)" by blast
      qed
      have c: "\<forall>i. mid + 1 + (len - half - 1) \<le> i \<and> i < length xs \<longrightarrow> p (xs ! i)"
        using hl "1.prems"(4) by (simp add: mid_def)
      show ?thesis unfolding eq
        using "1.IH"(2)[OF False half_def mid_def F2 a "1.prems"(2) b c] .
    qed
  qed
qed

lemma upper_bound_takeWhile:
  assumes mono: "\<forall>i j. i \<le> j \<and> j < length xs \<and> p (xs ! i) \<longrightarrow> p (xs ! j)"
  shows "upper_bound p xs = length (takeWhile (\<lambda>x. \<not> p x) xs)"
proof -
  define k where "k = upper_bound p xs"
  have s: "k \<le> length xs \<and> (\<forall>i < k. \<not> p (xs ! i)) \<and> (\<forall>i. k \<le> i \<and> i < length xs \<longrightarrow> p (xs ! i))"
    unfolding k_def upper_bound_def
  proof (rule upper_bound_from_spec)
    show "0 + length xs \<le> length xs" by simp
    show "\<forall>i j. i \<le> j \<and> j < length xs \<and> p (xs ! i) \<longrightarrow> p (xs ! j)" by (rule mono)
    show "\<forall>i<0. \<not> p (xs ! i)" by simp
    show "\<forall>i. 0 + length xs \<le> i \<and> i < length xs \<longrightarrow> p (xs ! i)" by auto
  qed
  have "takeWhile (\<lambda>x. \<not> p x) xs = take k xs"
  proof (rule takeWhile_eq_take_P_nth)
    fix i assume "i < k" "i < length xs"
    then show "\<not> p (xs ! i)" using s by blast
  next
    assume "k < length xs"
    then show "\<not> \<not> p (xs ! k)" using s by blast
  qed
  then have "length (takeWhile (\<lambda>x. \<not> p x) xs) = k" using s by simp
  then show ?thesis by (simp add: k_def)
qed

lemma sorted_index_mono:
  assumes "sorted (map f xs)"
  shows "\<forall>i j. i \<le> j \<and> j < length xs \<and> (v::nat) < f (xs ! i) \<longrightarrow> v < f (xs ! j)"
proof (intro allI impI)
  fix i j assume h: "i \<le> j \<and> j < length xs \<and> v < f (xs ! i)"
  then have "map f xs ! i \<le> map f xs ! j"
    using sorted_nth_mono[OF assms, of i j] by simp
  with h show "v < f (xs ! j)" by simp
qed

lemma upper_bound_sorted:
  assumes "sorted (map f xs)"
  shows "upper_bound (\<lambda>x. (v::nat) < f x) xs = length (takeWhile (\<lambda>x. f x \<le> v) xs)"
  using upper_bound_takeWhile[OF sorted_index_mono[OF assms, of v]] by (simp add: not_less)

text \<open>Claim C4. On a turn table sorted by vertex index, the current-turn query returns
  the first entry whose index is strictly greater than the cursor's vertex index: every
  entry before it has an index at most the cursor's, so a cursor that stands on the vertex
  of a turn gets a later turn. With the distance, the query gives that entry, and it fails
  its assertion when no entry lies ahead.\<close>

theorem GetCurrentTurn_first_strictly_greater:
  assumes ne: "m_turns r \<noteq> []"
    and srt: "sorted (map m_index (m_turns r))"
    and rng: "\<forall>t \<in> set (m_turns r). m_index t < GetSize (m_poly r)"
    and fit: "m_ind (m_current (m_poly r)) < 2 ^ 32"
  shows "GetCurrentTurn r = Inr (first_turn_after (m_turns r) (m_ind (m_current (m_poly r))))
    \<and> (\<forall>j < first_turn_after (m_turns r) (m_ind (m_current (m_poly r))).
          m_index (m_turns r ! j) \<le> m_ind (m_current (m_poly r)))
    \<and> (first_turn_after (m_turns r) (m_ind (m_current (m_poly r))) < length (m_turns r) \<longrightarrow>
          m_ind (m_current (m_poly r))
            < m_index (m_turns r ! first_turn_after (m_turns r) (m_ind (m_current (m_poly r))))
          \<and> (\<exists>d. GetCurrentTurnDist env r
                 = Inr (d, m_turns r ! first_turn_after (m_turns r) (m_ind (m_current (m_poly r))))))
    \<and> (first_turn_after (m_turns r) (m_ind (m_current (m_poly r))) = length (m_turns r) \<longrightarrow>
          GetCurrentTurnDist env r = Inl AssertFailed)"
proof -
  define i where "i = m_ind (m_current (m_poly r))"
  define k where "k = first_turn_after (m_turns r) i"
  have u: "u32 i = i" using fit by (simp add: u32_def i_def)
  have g: "GetCurrentTurn r = Inr k"
    using ne upper_bound_sorted[OF srt, of i]
    by (simp add: GetCurrentTurn_def Let_def u i_def[symmetric] k_def first_turn_after_def)
  have before: "\<forall>j<k. m_index (m_turns r ! j) \<le> i"
  proof (intro allI impI)
    fix j assume jk: "j < k"
    then have "takeWhile (\<lambda>t. m_index t \<le> i) (m_turns r) ! j \<in> set (takeWhile (\<lambda>t. m_index t \<le> i) (m_turns r))"
      by (simp add: k_def first_turn_after_def)
    then have "m_index (takeWhile (\<lambda>t. m_index t \<le> i) (m_turns r) ! j) \<le> i"
      by (rule set_takeWhileD[THEN conjunct2])
    then show "m_index (m_turns r ! j) \<le> i"
      using jk by (simp add: takeWhile_nth k_def first_turn_after_def)
  qed
  have at: "i < m_index (m_turns r ! k)" if "k < length (m_turns r)"
    using nth_length_takeWhile[of "\<lambda>t. m_index t \<le> i" "m_turns r"] that
    by (simp add: k_def first_turn_after_def not_le)
  have dist: "\<exists>d. GetCurrentTurnDist env r = Inr (d, m_turns r ! k)" if "k < length (m_turns r)"
  proof -
    have "m_index (m_turns r ! k) < GetSize (m_poly r)" using rng that by simp
    then show ?thesis using that g
      by (simp add: GetCurrentTurnDist_def Let_def GetIterToIndex_def)
  qed
  have none: "GetCurrentTurnDist env r = Inl AssertFailed" if "k = length (m_turns r)"
    using that g by (simp add: GetCurrentTurnDist_def)
  show ?thesis
    unfolding i_def[symmetric] k_def[symmetric]
    using g before at dist none by simp
qed

theorem GetCurrentTurn_first_strictly_greater_witness:
  "GetCurrentTurn turn_route = Inr 1
   \<and> GetCurrentTurnDist flat_env turn_route
       = Inr (200, \<lparr>m_index = 4, m_turn = ReachedYourDestination\<rparr>)"
proof -
  have h1: "m_turns turn_route \<noteq> []" by (simp add: turn_route_def mk_route_def)
  have h2: "sorted (map m_index (m_turns turn_route))"
    by (simp add: turn_route_def mk_route_def)
  have h3: "\<forall>t \<in> set (m_turns turn_route). m_index t < GetSize (m_poly turn_route)"
    by (simp add: turn_route_def mk_route_def pts5_def GetSize_def)
  have h4: "m_ind (m_current (m_poly turn_route)) < 2 ^ 32"
    by (simp add: turn_route_def mk_route_def)
  have k: "first_turn_after (m_turns turn_route) (m_ind (m_current (m_poly turn_route))) = 1"
    by (simp add: first_turn_after_def turn_route_def mk_route_def)
  have l: "(1::nat) < length (m_turns turn_route)" by (simp add: turn_route_def mk_route_def)
  from GetCurrentTurn_first_strictly_greater [OF h1 h2 h3 h4, of flat_env]
  have g: "GetCurrentTurn turn_route = Inr 1"
    and "\<exists>d. GetCurrentTurnDist flat_env turn_route = Inr (d, m_turns turn_route ! 1)"
    unfolding k using l by blast+
  then obtain d where d: "GetCurrentTurnDist flat_env turn_route = Inr (d, m_turns turn_route ! 1)"
    by blast
  have "GetCurrentTurnDist flat_env turn_route
      = Inr (200, \<lparr>m_index = 4, m_turn = ReachedYourDestination\<rparr>)"
    using g
    by (simp add: GetCurrentTurnDist_def GetIterToIndex_def GetDistanceM_def iterArc_def
        vertexArc_numeral GetSize_def turn_route_def mk_route_def pts5_def flat_env_def)
  then show ?thesis using g d by simp
qed

subsection \<open>Street names\<close>

lemma street_walk_one:
  "length streets = Suc 0 \<Longrightarrow> street_walk streets ind 0 (Suc 0) = Inl OutOfRange"
  by (simp add: street_walk.simps[of streets ind 0 "Suc 0"])

lemma street_walk_spec:
  assumes srt: "sorted_wrt (<) (map fst ss)"
  shows "cur < length ss \<Longrightarrow> prev + 1 = cur \<Longrightarrow>
    \<exists>k. street_walk ss i prev cur = Inr k \<and>
      (fst (ss ! (length ss - 1)) < i \<longrightarrow> k = length ss) \<and>
      (i \<le> fst (ss ! (length ss - 1)) \<longrightarrow>
         prev \<le> k \<and> k < length ss \<and> (prev < k \<longrightarrow> fst (ss ! k) \<le> i)
         \<and> (k + 1 < length ss \<longrightarrow> i < fst (ss ! (k + 1))))"
  using srt
proof (induction ss i prev cur rule: street_walk.induct)
  case (1 streets ind prev cur)
  have strict: "fst (streets ! a) < fst (streets ! b)" if "a < b" "b < length streets" for a b
    using sorted_wrt_nth_less[OF "1.prems"(3), of a b] that by simp
  have mono: "fst (streets ! a) \<le> fst (streets ! b)" if "a \<le> b" "b < length streets" for a b
    using strict[of a b] that by (cases "a = b") auto
  have cl: "cur < length streets" by (rule "1.prems"(1))
  show ?case
  proof (cases "fst (streets ! cur) < ind")
    case True
    show ?thesis
    proof (cases "cur + 1 = length streets")
      case e: True
      have "street_walk streets ind prev cur = Inr (length streets)"
        using cl True e by (simp add: street_walk.simps[of streets ind prev cur])
      moreover have "fst (streets ! (length streets - 1)) < ind"
        using e True by (metis add_diff_cancel_right')
      ultimately show ?thesis by simp
    next
      case ne: False
      have eq: "street_walk streets ind prev cur = street_walk streets ind (prev + 1) (cur + 1)"
        using cl True ne by (simp add: street_walk.simps[of streets ind prev cur])
      have c1: "cur + 1 < length streets" using cl ne by simp
      have p1: "prev + 1 + 1 = cur + 1" using "1.prems"(2) by simp
      have nle: "\<not> length streets \<le> cur" using cl by simp
      from "1.IH"[OF nle True ne c1 p1 "1.prems"(3)]
      obtain k where k: "street_walk streets ind (prev + 1) (cur + 1) = Inr k"
        "fst (streets ! (length streets - 1)) < ind \<longrightarrow> k = length streets"
        "ind \<le> fst (streets ! (length streets - 1)) \<longrightarrow>
           prev + 1 \<le> k \<and> k < length streets \<and> (prev + 1 < k \<longrightarrow> fst (streets ! k) \<le> ind)
           \<and> (k + 1 < length streets \<longrightarrow> ind < fst (streets ! (k + 1)))"
        by blast
      have "ind \<le> fst (streets ! (length streets - 1)) \<longrightarrow> (prev < k \<longrightarrow> fst (streets ! k) \<le> ind)"
      proof (intro impI)
        assume a: "ind \<le> fst (streets ! (length streets - 1))" and "prev < k"
        show "fst (streets ! k) \<le> ind"
        proof (cases "prev + 1 < k")
          case True then show ?thesis using k(3) a by blast
        next
          case False
          then have "k = cur" using k(3) a "1.prems"(2) by auto
          then show ?thesis using True by simp
        qed
      qed
      then show ?thesis unfolding eq using k by auto
    qed
  next
    case False
    have res: "street_walk streets ind prev cur = Inr (if fst (streets ! cur) = ind then cur else prev)"
      using cl False by (simp add: street_walk.simps[of streets ind prev cur])
    have lastge: "ind \<le> fst (streets ! (length streets - 1))"
    proof -
      have "cur \<le> length streets - 1" "length streets - 1 < length streets" using cl by auto
      then have "fst (streets ! cur) \<le> fst (streets ! (length streets - 1))" by (rule mono)
      then show ?thesis using False by linarith
    qed
    show ?thesis
    proof (cases "fst (streets ! cur) = ind")
      case True
      have "cur + 1 < length streets \<longrightarrow> ind < fst (streets ! (cur + 1))"
        using strict[of cur "cur + 1"] True by simp
      then show ?thesis using res True cl lastge "1.prems"(2) by auto
    next
      case ne: False
      have "ind < fst (streets ! (prev + 1))" using False ne "1.prems"(2) by auto
      then show ?thesis using res ne cl lastge "1.prems"(2) by auto
    qed
  qed
qed


lemma street_walk_in_bounds:
  "cur < length ss \<Longrightarrow> \<exists>k. street_walk ss i prev cur = Inr k"
proof (induction ss i prev cur rule: street_walk.induct)
  case (1 streets ind prev cur)
  show ?case
  proof (cases "fst (streets ! cur) < ind \<and> cur + 1 \<noteq> length streets")
    case True
    then have eq: "street_walk streets ind prev cur = street_walk streets ind (prev + 1) (cur + 1)"
      using "1.prems" by (simp add: street_walk.simps[of streets ind prev cur])
    have "cur + 1 < length streets" using True "1.prems" by simp
    then show ?thesis unfolding eq using "1.IH" True "1.prems" by simp
  next
    case False
    then show ?thesis using "1.prems" by (auto simp add: street_walk.simps[of streets ind prev cur])
  qed
qed

text \<open>Claim C10. The walk reads \<^verbatim>\<open>curIter->first\<close> before it compares \<^verbatim>\<open>curIter\<close>
  with the end of the table. On a street table with exactly one entry \<^verbatim>\<open>curIter\<close> is the
  past-the-end position from the start, so the current-street query and the look-ahead
  query both read outside the table, for every cursor. (With two entries or more the walk
  stays inside the table: \<open>street_walk_in_bounds\<close>.)\<close>

theorem street_walk_single_entry_out_of_range:
  "length (m_streets r) = 1 \<Longrightarrow>
     GetCurrentStreetNameIterAfter r iter = Inl OutOfRange
     \<and> GetCurrentStreetName r = Inl OutOfRange
     \<and> (idx < GetSize (m_poly r) \<longrightarrow> GetStreetNameAfterIdx env r idx = Inl OutOfRange)"
proof -
  assume one: "length (m_streets r) = 1"
  then have ne: "m_streets r \<noteq> []" by auto
  have w: "street_walk (m_streets r) j 0 1 = Inl OutOfRange" for j
    using street_walk_one[of "m_streets r" j] one by simp
  show ?thesis
    using ne w by (simp add: GetCurrentStreetNameIterAfter_def GetCurrentStreetName_def
        GetStreetNameAfterIdx_def GetIterToIndex_def)
qed

theorem street_walk_single_entry_out_of_range_witness:
  "GetCurrentStreetName (one_street_route 0) = Inl OutOfRange
   \<and> GetStreetNameAfterIdx flat_env (one_street_route 0) 1 = Inl OutOfRange"
proof -
  have h: "length (m_streets (one_street_route 0)) = 1"
    by (simp add: one_street_route_def mk_route_def)
  have i: "1 < GetSize (m_poly (one_street_route 0))"
    by (simp add: one_street_route_def mk_route_def pts5_def GetSize_def)
  from street_walk_single_entry_out_of_range [OF h, of _ 1 flat_env] i
  show ?thesis by blast
qed

text \<open>Claim C3, amended. On an empty street table the current-street query returns the
  empty string. On a table with at least two entries and strictly increasing indices: when
  the cursor's vertex index lies between the first and the last index of the table, the
  query returns the name of the entry with the greatest index at most the cursor's; when
  the cursor is beyond the last index, it returns the empty string. The scenario of
  section 8 is the witness.\<close>

theorem GetCurrentStreetName_covering:
  "(m_streets r = [] \<longrightarrow> GetCurrentStreetName r = Inr [])
   \<and> (2 \<le> length (m_streets r) \<and> sorted_wrt (<) (map fst (m_streets r)) \<longrightarrow>
        (fst (hd (m_streets r)) \<le> m_ind (m_current (m_poly r))
           \<and> m_ind (m_current (m_poly r)) \<le> fst (last (m_streets r)) \<longrightarrow>
           (\<exists>name. GetCurrentStreetName r = Inr name
              \<and> covering_street (m_streets r) (m_ind (m_current (m_poly r))) name))
        \<and> (fst (last (m_streets r)) < m_ind (m_current (m_poly r)) \<longrightarrow>
             GetCurrentStreetName r = Inr []))"
proof (intro conjI impI)
  assume "m_streets r = []"
  then show "GetCurrentStreetName r = Inr []"
    by (simp add: GetCurrentStreetName_def GetCurrentStreetNameIterAfter_def)
next
  define ss where "ss = m_streets r"
  define i where "i = m_ind (m_current (m_poly r))"
  assume h: "2 \<le> length (m_streets r) \<and> sorted_wrt (<) (map fst (m_streets r))"
  then have len: "2 \<le> length ss" and srt: "sorted_wrt (<) (map fst ss)" by (simp_all add: ss_def)
  have ne: "ss \<noteq> []" using len by auto
  have lst: "last ss = ss ! (length ss - 1)" using ne by (rule last_conv_nth)
  have hd0: "hd ss = ss ! 0" using ne by (rule hd_conv_nth)
  have strict: "fst (ss ! a) < fst (ss ! b)" if "a < b" "b < length ss" for a b
    using sorted_wrt_nth_less[OF srt, of a b] that by simp
  have mono: "fst (ss ! a) \<le> fst (ss ! b)" if "a \<le> b" "b < length ss" for a b
    using strict[of a b] that by (cases "a = b") auto
  have "1 < length ss" "0 + 1 = (1::nat)" using len by auto
  from street_walk_spec[OF srt this, of i]
  obtain k where k: "street_walk ss i 0 1 = Inr k"
    "fst (ss ! (length ss - 1)) < i \<longrightarrow> k = length ss"
    "i \<le> fst (ss ! (length ss - 1)) \<longrightarrow>
        k < length ss \<and> (0 < k \<longrightarrow> fst (ss ! k) \<le> i)
         \<and> (k + 1 < length ss \<longrightarrow> i < fst (ss ! (k + 1)))"
    by auto
  have it: "GetCurrentStreetNameIterAfter r (m_current (m_poly r)) = Inr k"
    using k(1) ne by (simp add: GetCurrentStreetNameIterAfter_def ss_def i_def)
  {
    assume a: "fst (hd (m_streets r)) \<le> m_ind (m_current (m_poly r))
       \<and> m_ind (m_current (m_poly r)) \<le> fst (last (m_streets r))"
    then have lo: "fst (ss ! 0) \<le> i" and hi: "i \<le> fst (ss ! (length ss - 1))"
      using hd0 lst by (simp_all add: ss_def i_def)
    have kl: "k < length ss" and kle: "fst (ss ! k) \<le> i"
      and knext: "k + 1 < length ss \<longrightarrow> i < fst (ss ! (k + 1))"
      using k(3) hi lo by (cases "k = 0"; auto)+
    have res: "GetCurrentStreetName r = Inr (snd (ss ! k))"
      using it kl by (simp add: GetCurrentStreetName_def ss_def)
    have great: "fst t \<le> fst (ss ! k)" if "t \<in> set ss" "fst t \<le> i" for t
    proof -
      from that(1) obtain j where j: "j < length ss" "t = ss ! j" by (auto simp: in_set_conv_nth)
      show ?thesis
      proof (cases "j \<le> k")
        case True then show ?thesis using mono[of j k] kl j by simp
      next
        case False
        then have "k + 1 \<le> j" by simp
        then have "fst (ss ! (k + 1)) \<le> fst (ss ! j)" using mono[of "k + 1" j] j by simp
        moreover have "i < fst (ss ! (k + 1))" using knext False j by simp
        ultimately show ?thesis using that(2) j by simp
      qed
    qed
    have "covering_street ss i (snd (ss ! k))"
      unfolding covering_street_def
      using kl kle great by (intro bexI[of _ "ss ! k"]) auto
    then show "\<exists>name. GetCurrentStreetName r = Inr name
        \<and> covering_street (m_streets r) (m_ind (m_current (m_poly r))) name"
      using res by (auto simp: ss_def i_def)
  }
  {
    assume "fst (last (m_streets r)) < m_ind (m_current (m_poly r))"
    then have "k = length ss" using k(2) lst by (simp add: ss_def i_def)
    then show "GetCurrentStreetName r = Inr []"
      using it by (simp add: GetCurrentStreetName_def ss_def)
  }
qed

theorem GetCurrentStreetName_covering_witness:
  "GetCurrentStreetName (street_route 1) = Inr ''A''
   \<and> GetCurrentStreetName (street_route 3) = Inr ''B''
   \<and> GetCurrentStreetName (street_route 4) = Inr []"
proof -
  have len: "2 \<le> length (m_streets (street_route i))" for i
    by (simp add: street_route_def mk_route_def)
  have srt: "sorted_wrt (<) (map fst (m_streets (street_route i)))" for i
    by (simp add: street_route_def mk_route_def)
  have in1: "fst (hd (m_streets (street_route 1))) \<le> m_ind (m_current (m_poly (street_route 1)))
      \<and> m_ind (m_current (m_poly (street_route 1))) \<le> fst (last (m_streets (street_route 1)))"
    by (simp add: street_route_def mk_route_def)
  have in3: "fst (hd (m_streets (street_route 3))) \<le> m_ind (m_current (m_poly (street_route 3)))
      \<and> m_ind (m_current (m_poly (street_route 3))) \<le> fst (last (m_streets (street_route 3)))"
    by (simp add: street_route_def mk_route_def)
  have out4: "fst (last (m_streets (street_route 4))) < m_ind (m_current (m_poly (street_route 4)))"
    by (simp add: street_route_def mk_route_def)
  from GetCurrentStreetName_covering [of "street_route 1"] len srt in1
  obtain n1 where n1: "GetCurrentStreetName (street_route 1) = Inr n1"
    "covering_street (m_streets (street_route 1)) (m_ind (m_current (m_poly (street_route 1)))) n1"
    by blast
  from GetCurrentStreetName_covering [of "street_route 3"] len srt in3
  obtain n3 where n3: "GetCurrentStreetName (street_route 3) = Inr n3"
    "covering_street (m_streets (street_route 3)) (m_ind (m_current (m_poly (street_route 3)))) n3"
    by blast
  from GetCurrentStreetName_covering [of "street_route 4"] len srt out4
  have n4: "GetCurrentStreetName (street_route 4) = Inr []" by blast
  have "n1 = ''A''" using n1(2) by (simp add: covering_street_def street_route_def mk_route_def)
  moreover have "n3 = ''B''"
    using n3(2) by (simp add: covering_street_def street_route_def mk_route_def)
  ultimately show ?thesis using n1(1) n3(1) n4 by simp
qed

text \<open>Claim C3 as stated fails beyond the last entry: with the table \<open>[(0, A), (3, B)]\<close>
  and the cursor on vertex 4 the greatest index at most 4 is 3, and the query returns the
  empty string, not \<open>B\<close>.\<close>

theorem GetCurrentStreetName_covering_counterexample:
  "\<not> (\<exists>name. GetCurrentStreetName (street_route 4) = Inr name
        \<and> covering_street (m_streets (street_route 4))
             (m_ind (m_current (m_poly (street_route 4)))) name)"
  by (simp add: street_route_def mk_route_def covering_street_def GetCurrentStreetName_def
      GetCurrentStreetNameIterAfter_def street_walk.simps)

subsection \<open>Location matcher\<close>

text \<open>Claim C9. When the polyline is not valid, or the cursor is at least the matching
  threshold away from the fix, \<open>MatchLocationToRoute\<close> returns the fix as it was (latitude,
  longitude and bearing included) and gives nothing to the sink; and whenever it returns,
  the route is the route it was called on.\<close>

theorem MatchLocationToRoute_frame:
  "(\<not> PolyIsValid env (m_poly r)
      \<or> m_matchingThresholdM (m_routingSettings r)
           \<le> DistanceOnEarth env (m_pt (m_current (m_poly r)))
                (FromLatLon env (m_latitude location) (m_longitude location))
     \<longrightarrow> MatchLocationToRoute env r location info = Inr (r, location, info))
   \<and> (MatchLocationToRoute env r location info = Inr (r', location', info') \<longrightarrow> r' = r)"
  by (auto simp add: MatchLocationToRoute_def Let_def split: if_splits sum.splits)

theorem MatchLocationToRoute_frame_witness:
  "MatchLocationToRoute flat_env turn_route far_fix [] = Inr (turn_route, far_fix, [])
   \<and> (\<exists>location' info'. MatchLocationToRoute flat_env turn_route near_fix []
          = Inr (turn_route, location', info') \<and> location' \<noteq> near_fix \<and> info' \<noteq> [])"
proof -
  have far: "m_matchingThresholdM (m_routingSettings turn_route)
      \<le> DistanceOnEarth flat_env (m_pt (m_current (m_poly turn_route)))
           (FromLatLon flat_env (m_latitude far_fix) (m_longitude far_fix))"
    by (simp add: turn_route_def mk_route_def flat_env_def far_fix_def)
  from MatchLocationToRoute_frame [of flat_env turn_route far_fix "[]"] far
  have a: "MatchLocationToRoute flat_env turn_route far_fix [] = Inr (turn_route, far_fix, [])"
    by blast
  have "\<exists>r' location' info'. MatchLocationToRoute flat_env turn_route near_fix []
      = Inr (r', location', info') \<and> location' \<noteq> near_fix \<and> info' \<noteq> []"
    by (simp add: MatchLocationToRoute_def GetPolySegAngle_def GetSize_def Set_info_def
        seg_angle_loop.simps turn_route_def mk_route_def pts5_def flat_env_def near_fix_def)
  then obtain r' location' info' where
    n: "MatchLocationToRoute flat_env turn_route near_fix [] = Inr (r', location', info')"
    and c: "location' \<noteq> near_fix" "info' \<noteq> []" by blast
  from MatchLocationToRoute_frame [of flat_env turn_route near_fix "[]" r' location' info'] n
  have "r' = turn_route" by blast
  then show ?thesis using a n c by blast
qed

subsection \<open>Route merger\<close>

lemma RemoveEndPoint_nonempty:
  assumes "RemoveEndPoint env A B = Inr A1" "GetSize (m_poly A) \<noteq> 0"
  shows "A1 = A\<lparr>m_poly := PopBack (m_poly A), m_turns := butlast (m_turns A),
                 m_times := butlast (m_times A)\<rparr>"
  using assms unfolding RemoveEndPoint_def
  by (simp split: if_splits sum.splits)

lemma RemoveEndPoint_empty:
  assumes "RemoveEndPoint env A B = Inr A1" "GetSize (m_poly A) = 0"
  shows "A1 = A"
  using assms unfolding RemoveEndPoint_def by simp

lemma RemoveEndPoint_fields:
  assumes "RemoveEndPoint env A B = Inr A1"
  shows "m_points (m_poly A1) = butlast (m_points (m_poly A))"
    and "m_turns A1 = (if GetSize (m_poly A) \<noteq> 0 then butlast (m_turns A) else m_turns A)"
    and "m_times A1 = (if GetSize (m_poly A) \<noteq> 0 then butlast (m_times A) else m_times A)"
    and "m_streets A1 = m_streets A"
    and "m_traffic A1 = m_traffic A"
    and "GetSize (m_poly A1) = GetSize (m_poly A) - 1"
proof -
  have "m_points (m_poly A1) = butlast (m_points (m_poly A))
    \<and> m_turns A1 = (if GetSize (m_poly A) \<noteq> 0 then butlast (m_turns A) else m_turns A)
    \<and> m_times A1 = (if GetSize (m_poly A) \<noteq> 0 then butlast (m_times A) else m_times A)
    \<and> m_streets A1 = m_streets A \<and> m_traffic A1 = m_traffic A
    \<and> GetSize (m_poly A1) = GetSize (m_poly A) - 1"
  proof (cases "GetSize (m_poly A) = 0")
    case True
    then show ?thesis using RemoveEndPoint_empty[OF assms True] by (simp add: GetSize_def)
  next
    case False
    show ?thesis unfolding RemoveEndPoint_nonempty[OF assms False]
      using False by (simp add: PopBack_def GetSize_def)
  qed
  then show "m_points (m_poly A1) = butlast (m_points (m_poly A))"
    and "m_turns A1 = (if GetSize (m_poly A) \<noteq> 0 then butlast (m_turns A) else m_turns A)"
    and "m_times A1 = (if GetSize (m_poly A) \<noteq> 0 then butlast (m_times A) else m_times A)"
    and "m_streets A1 = m_streets A"
    and "m_traffic A1 = m_traffic A"
    and "GetSize (m_poly A1) = GetSize (m_poly A) - 1" by simp_all
qed


lemma AppendTurns_eq:
  "AppendTurns off acc ts =
     acc @ map (\<lambda>t. t\<lparr>m_index := u32 (m_index t + off)\<rparr>) (filter (\<lambda>t. m_index t \<noteq> 0) ts)"
  by (induction ts arbitrary: acc) simp_all

lemma AppendStreets_eq:
  "AppendStreets off acc ss =
     acc @ map (\<lambda>s. (u32 (fst s + off), snd s)) (filter (\<lambda>s. fst s \<noteq> 0) ss)"
  by (induction ss arbitrary: acc) simp_all

lemma AppendTimes_eq:
  "AppendTimes off est acc ts =
     acc @ map (\<lambda>t. (u32 (fst t + off), snd t + est)) (filter (\<lambda>t. fst t \<noteq> 0) ts)"
  by (induction ts arbitrary: acc) simp_all

lemma AppendTraffic_shape:
  assumes "AppendTraffic env X B = Inr Y"
  shows "\<exists>tr. Y = X\<lparr>m_traffic := tr\<rparr>"
proof (cases "m_traffic X = [] \<and> m_traffic B = []")
  case True
  then have "Y = X" using assms by (simp add: AppendTraffic_def split: if_splits)
  then have "Y = X\<lparr>m_traffic := m_traffic X\<rparr>" by simp
  then show ?thesis by blast
next
  case False
  then show ?thesis using assms
    by (simp add: AppendTraffic_def Let_def split: if_splits) blast+
qed

lemma AppendRoute_steps:
  assumes v: "IsValid env B" and r: "AppendRoute env A B = Inr R"
  shows "\<exists>A1 tr. RemoveEndPoint env A B = Inr A1
     \<and> AppendTraffic env (A1\<lparr>
          m_turns := AppendTurns (GetSize (m_poly A1)) (m_turns A1) (m_turns B),
          m_streets := AppendStreets (GetSize (m_poly A1)) (m_streets A1) (m_streets B),
          m_times := AppendTimes (GetSize (m_poly A1))
             (if m_times A = [] then 0 else snd (last (m_times A))) (m_times A1) (m_times B)\<rparr>) B
         = Inr (A1\<lparr>
          m_turns := AppendTurns (GetSize (m_poly A1)) (m_turns A1) (m_turns B),
          m_streets := AppendStreets (GetSize (m_poly A1)) (m_streets A1) (m_streets B),
          m_times := AppendTimes (GetSize (m_poly A1))
             (if m_times A = [] then 0 else snd (last (m_times A))) (m_times A1) (m_times B),
          m_traffic := tr\<rparr>)
     \<and> R = Update env (A1\<lparr>
          m_turns := AppendTurns (GetSize (m_poly A1)) (m_turns A1) (m_turns B),
          m_streets := AppendStreets (GetSize (m_poly A1)) (m_streets A1) (m_streets B),
          m_times := AppendTimes (GetSize (m_poly A1))
             (if m_times A = [] then 0 else snd (last (m_times A))) (m_times A1) (m_times B),
          m_traffic := tr,
          m_poly := Append (m_poly A1) (m_poly B)\<rparr>)"
proof (cases "RemoveEndPoint env A B")
  case (Inl e)
  then show ?thesis using r v by (simp add: AppendRoute_def)
next
  case (Inr A1)
  define A2 where "A2 = A1\<lparr>
      m_turns := AppendTurns (GetSize (m_poly A1)) (m_turns A1) (m_turns B),
      m_streets := AppendStreets (GetSize (m_poly A1)) (m_streets A1) (m_streets B),
      m_times := AppendTimes (GetSize (m_poly A1))
         (if m_times A = [] then 0 else snd (last (m_times A))) (m_times A1) (m_times B)\<rparr>"
  show ?thesis
  proof (cases "AppendTraffic env A2 B")
    case e: (Inl e)
    then show ?thesis using r v Inr by (simp add: AppendRoute_def Let_def A2_def)
  next
    case a3: (Inr A3)
    from AppendTraffic_shape[OF a3] obtain tr where tr: "A3 = A2\<lparr>m_traffic := tr\<rparr>" by blast
    have "R = Update env (A3\<lparr>m_poly := Append (m_poly A3) (m_poly B)\<rparr>)"
      using r v Inr a3 by (simp add: AppendRoute_def Let_def A2_def[symmetric] split: if_splits)
    then have R: "R = Update env (A2\<lparr>m_traffic := tr, m_poly := Append (m_poly A1) (m_poly B)\<rparr>)"
      using tr by (simp add: A2_def)
    have t: "AppendTraffic env A2 B = Inr (A2\<lparr>m_traffic := tr\<rparr>)" using a3 tr by simp
    show ?thesis
      apply (rule exI[of _ A1])
      apply (rule exI[of _ tr])
      using Inr t R unfolding A2_def by simp
  qed
qed

lemma Update_fields:
  "m_turns (Update env X) = m_turns X" "m_times (Update env X) = m_times X"
  "m_streets (Update env X) = m_streets X" "m_traffic (Update env X) = m_traffic X"
  "m_poly (Update env X) = m_poly X"
  by (simp_all add: Update_def)

lemma AppendRoute_tables:
  assumes v: "IsValid env B" and r: "AppendRoute env A B = Inr R"
  shows "\<exists>A1. RemoveEndPoint env A B = Inr A1
     \<and> m_turns R = AppendTurns (GetSize (m_poly A) - 1) (m_turns A1) (m_turns B)
     \<and> m_streets R = AppendStreets (GetSize (m_poly A) - 1) (m_streets A1) (m_streets B)
     \<and> m_times R = AppendTimes (GetSize (m_poly A) - 1)
          (if m_times A = [] then 0 else snd (last (m_times A))) (m_times A1) (m_times B)
     \<and> m_points (m_poly R) = butlast (m_points (m_poly A)) @ m_points (m_poly B)"
proof -
  from AppendRoute_steps[OF v r] obtain A1 tr where a1: "RemoveEndPoint env A B = Inr A1"
    and R: "R = Update env (A1\<lparr>
          m_turns := AppendTurns (GetSize (m_poly A1)) (m_turns A1) (m_turns B),
          m_streets := AppendStreets (GetSize (m_poly A1)) (m_streets A1) (m_streets B),
          m_times := AppendTimes (GetSize (m_poly A1))
             (if m_times A = [] then 0 else snd (last (m_times A))) (m_times A1) (m_times B),
          m_traffic := tr,
          m_poly := Append (m_poly A1) (m_poly B)\<rparr>)"
    by blast
  note f = RemoveEndPoint_fields[OF a1]
  show ?thesis
    using a1 f(1,6) by (simp add: R Update_fields Append_def)
qed

lemma AppendRoute_AB:
  "AppendRoute flat_env (route_A [G1, G2]) (route_B [G3, G4]) = Inr (merged_AB [G1, G2, G3, G4])"
  by (simp add: AppendRoute_def RemoveEndPoint_def AppendTraffic_def IsValid_def GetSize_def
      End_def Begin_def PopBack_def Append_def Update_def u32_def
      route_A_def route_B_def merged_AB_def mk_route_def pts5_def flat_env_def)

text \<open>Claim C2. When a continuation \<open>B\<close> with a valid path is appended to \<open>A\<close>, the
  merged turn, street and time tables are the entries kept from \<open>A\<close> followed by the
  entries of \<open>B\<close> whose index is not 0, each with its index increased by the number of
  vertices of \<open>A\<close> that remain once its last vertex is removed (0 for an empty path); the
  time entries of \<open>B\<close> also have their time increased by the last time value \<open>A\<close> had
  before the merge. The rebased indices are assumed to fit in 32 bits.\<close>

theorem AppendRoute_rebases_entries:
  assumes v: "IsValid env B" and r: "AppendRoute env A B = Inr R"
    and ft: "\<forall>t \<in> set (m_turns B). m_index t + (GetSize (m_poly A) - 1) < 2 ^ 32"
    and fs: "\<forall>s \<in> set (m_streets B). fst s + (GetSize (m_poly A) - 1) < 2 ^ 32"
    and fm: "\<forall>t \<in> set (m_times B). fst t + (GetSize (m_poly A) - 1) < 2 ^ 32"
  shows "m_turns R =
      (if GetSize (m_poly A) \<noteq> 0 then butlast (m_turns A) else m_turns A)
        @ map (\<lambda>t. t\<lparr>m_index := m_index t + (GetSize (m_poly A) - 1)\<rparr>)
            (filter (\<lambda>t. m_index t \<noteq> 0) (m_turns B))
    \<and> m_streets R =
      m_streets A
        @ map (\<lambda>s. (fst s + (GetSize (m_poly A) - 1), snd s))
            (filter (\<lambda>s. fst s \<noteq> 0) (m_streets B))
    \<and> m_times R =
      (if GetSize (m_poly A) \<noteq> 0 then butlast (m_times A) else m_times A)
        @ map (\<lambda>t. (fst t + (GetSize (m_poly A) - 1),
                     snd t + (if m_times A = [] then 0 else snd (last (m_times A)))))
            (filter (\<lambda>t. fst t \<noteq> 0) (m_times B))"
proof -
  from AppendRoute_tables[OF v r] obtain A1 where a1: "RemoveEndPoint env A B = Inr A1"
    and t: "m_turns R = AppendTurns (GetSize (m_poly A) - 1) (m_turns A1) (m_turns B)"
    and s: "m_streets R = AppendStreets (GetSize (m_poly A) - 1) (m_streets A1) (m_streets B)"
    and m: "m_times R = AppendTimes (GetSize (m_poly A) - 1)
          (if m_times A = [] then 0 else snd (last (m_times A))) (m_times A1) (m_times B)"
    by blast
  note f = RemoveEndPoint_fields[OF a1]
  have u: "u32 n = n" if "n < 2 ^ 32" for n using that by (simp add: u32_def)
  have mt: "map (\<lambda>t. t\<lparr>m_index := u32 (m_index t + (GetSize (m_poly A) - 1))\<rparr>)
              (filter (\<lambda>t. m_index t \<noteq> 0) (m_turns B))
          = map (\<lambda>t. t\<lparr>m_index := m_index t + (GetSize (m_poly A) - 1)\<rparr>)
              (filter (\<lambda>t. m_index t \<noteq> 0) (m_turns B))"
    by (rule map_cong[OF refl]) (use ft u in auto)
  have ms: "map (\<lambda>s. (u32 (fst s + (GetSize (m_poly A) - 1)), snd s))
              (filter (\<lambda>s. fst s \<noteq> 0) (m_streets B))
          = map (\<lambda>s. (fst s + (GetSize (m_poly A) - 1), snd s))
              (filter (\<lambda>s. fst s \<noteq> 0) (m_streets B))"
    by (rule map_cong[OF refl]) (use fs u in auto)
  have mm: "map (\<lambda>t. (u32 (fst t + (GetSize (m_poly A) - 1)), snd t + e))
              (filter (\<lambda>t. fst t \<noteq> 0) (m_times B))
          = map (\<lambda>t. (fst t + (GetSize (m_poly A) - 1), snd t + e))
              (filter (\<lambda>t. fst t \<noteq> 0) (m_times B))" for e
    by (rule map_cong[OF refl]) (use fm u in auto)
  show ?thesis
    unfolding t s m AppendTurns_eq AppendStreets_eq AppendTimes_eq mt ms mm f(2,3,4)
    by simp
qed

theorem AppendRoute_rebases_entries_witness:
  "AppendRoute flat_env (route_A [G1, G2]) (route_B [G3, G4]) = Inr (merged_AB [G1, G2, G3, G4])
   \<and> m_turns (merged_AB [G1, G2, G3, G4])
       = [\<lparr>m_index = 1, m_turn = TurnLeft\<rparr>, \<lparr>m_index = 1 + 2, m_turn = TurnRight\<rparr>,
          \<lparr>m_index = 2 + 2, m_turn = ReachedYourDestination\<rparr>]
   \<and> m_streets (merged_AB [G1, G2, G3, G4]) = [(0, ''A''), (1 + 2, ''C'')]
   \<and> m_times (merged_AB [G1, G2, G3, G4]) = [(1, 10), (1 + 2, 7 + 20), (2 + 2, 15 + 20)]"
proof -
  have v: "IsValid flat_env (route_B [G3, G4])"
    by (simp add: IsValid_def GetSize_def route_B_def mk_route_def flat_env_def)
  have ft: "\<forall>t \<in> set (m_turns (route_B [G3, G4])).
      m_index t + (GetSize (m_poly (route_A [G1, G2])) - 1) < 2 ^ 32"
    by (simp add: GetSize_def route_A_def route_B_def mk_route_def)
  have fs: "\<forall>s \<in> set (m_streets (route_B [G3, G4])).
      fst s + (GetSize (m_poly (route_A [G1, G2])) - 1) < 2 ^ 32"
    by (simp add: GetSize_def route_A_def route_B_def mk_route_def)
  have fm: "\<forall>t \<in> set (m_times (route_B [G3, G4])).
      fst t + (GetSize (m_poly (route_A [G1, G2])) - 1) < 2 ^ 32"
    by (simp add: GetSize_def route_A_def route_B_def mk_route_def)
  from AppendRoute_rebases_entries [OF v AppendRoute_AB ft fs fm]
  show ?thesis
    using AppendRoute_AB
    by (simp add: GetSize_def route_A_def route_B_def mk_route_def)
qed







text \<open>The theorem depends on the validity of a route of one vertex. Were a route valid
  only from two vertices on, what remains of the two-vertex route above would be invalid,
  the branch of lines 377-381 would replace its traffic by the traffic of \<open>B\<close>, and the
  size check of line 465 would fail.\<close>

lemma AppendRoute_traffic_one_vertex_invalid:
  "AppendRoute (flat_env\<lparr>RouteIsValid := (\<lambda>n. 1 < n)\<rparr>) (route_A2 [G1]) (route_B [G3, G4])
     = Inl CheckFailed"
  by (simp add: AppendRoute_def RemoveEndPoint_def AppendTraffic_def IsValid_def GetSize_def
      End_def Begin_def PopBack_def Append_def Update_def u32_def
      route_A2_def route_B_def mk_route_def flat_env_def)

text \<open>Continuations of at least two vertices. Let \<open>A\<close> have a non-empty path and \<open>B\<close>
  a valid path of at least two vertices, let both turn tables have strictly increasing
  indices and end with an entry at the final vertex of their path, the one of \<open>B\<close> being
  the destination marker, and let the merged path fit 32-bit indices. When the merge
  returns, the merged turn table has strictly increasing indices and its last entry is the
  destination marker at the final vertex of the merged path.\<close>

lemma AppendRoute_turn_invariant:
  assumes vB: "IsValid env B" and r: "AppendRoute env A B = Inr R"
    and a1: "GetSize (m_poly A) \<noteq> 0" and b2: "2 \<le> GetSize (m_poly B)"
    and sA: "sorted_wrt (<) (map m_index (m_turns A))"
    and nA: "m_turns A \<noteq> []"
    and lA: "m_index (last (m_turns A)) = GetSize (m_poly A) - 1"
    and sB: "sorted_wrt (<) (map m_index (m_turns B))"
    and nB: "m_turns B \<noteq> []"
    and lB: "m_index (last (m_turns B)) = GetSize (m_poly B) - 1"
    and mB: "m_turn (last (m_turns B)) = ReachedYourDestination"
    and fit: "GetSize (m_poly A) + GetSize (m_poly B) \<le> 2 ^ 32"
  shows "sorted_wrt (<) (map m_index (m_turns R))
    \<and> m_turns R \<noteq> []
    \<and> m_turn (last (m_turns R)) = ReachedYourDestination
    \<and> m_index (last (m_turns R)) = GetSize (m_poly R) - 1"
proof -
  define n where "n = GetSize (m_poly A) - 1"
  define b where "b = GetSize (m_poly B)"
  define pa where "pa = butlast (m_turns A)"
  define pb where "pb = butlast (m_turns B)"
  define lb where "lb = last (m_turns B)"
  define la where "la = last (m_turns A)"
  define sh where "sh = (\<lambda>t::TurnItem. t\<lparr>m_index := u32 (m_index t + n)\<rparr>)"
  have tA: "m_turns A = pa @ [la]" using nA by (simp add: pa_def la_def)
  have tB: "m_turns B = pb @ [lb]" using nB by (simp add: pb_def lb_def)
  have sA': "sorted_wrt (\<lambda>x y. m_index x < m_index y) (pa @ [la])"
    using sA unfolding tA sorted_wrt_map .
  have sB': "sorted_wrt (\<lambda>x y. m_index x < m_index y) (pb @ [lb])"
    using sB unfolding tB sorted_wrt_map .
  have pa_lt: "\<forall>x \<in> set pa. m_index x < n"
    using sA' lA by (simp add: sorted_wrt_append n_def la_def)
  have pa_s: "sorted_wrt (\<lambda>x y. m_index x < m_index y) pa"
    using sA' by (simp add: sorted_wrt_append)
  have pb_lt: "\<forall>x \<in> set pb. m_index x < b - 1"
    using sB' lB by (simp add: sorted_wrt_append lb_def b_def)
  have pb_s: "sorted_wrt (\<lambda>x y. m_index x < m_index y) pb"
    using sB' by (simp add: sorted_wrt_append)
  have lb_i: "m_index lb = b - 1" using lB by (simp add: lb_def b_def)
  have lb_nz: "m_index lb \<noteq> 0" using lb_i b2 by (simp add: b_def)
  have nb: "n + b \<le> 2 ^ 32" using fit by (simp add: n_def b_def)
  have b1: "1 \<le> b" using b2 by (simp add: b_def)
  have u_lb: "u32 (m_index lb + n) = b - 1 + n"
    using nb b1 lb_i by (simp add: u32_def)
  have u_pb: "u32 (m_index x + n) = m_index x + n" if "x \<in> set pb" for x
    using nb pb_lt that by (auto simp add: u32_def)
  from AppendRoute_tables[OF vB r] obtain A1 where rp: "RemoveEndPoint env A B = Inr A1"
    and t: "m_turns R = AppendTurns n (m_turns A1) (m_turns B)"
    and pts: "m_points (m_poly R) = butlast (m_points (m_poly A)) @ m_points (m_poly B)"
    unfolding n_def by blast
  have "m_turns A1 = pa" using RemoveEndPoint_fields(2)[OF rp] a1 by (simp add: pa_def)
  then have tR: "m_turns R = pa @ map sh (filter (\<lambda>t. m_index t \<noteq> 0) pb) @ [sh lb]"
    using lb_nz by (simp add: t AppendTurns_eq tB sh_def)
  define qb where "qb = filter (\<lambda>t. m_index t \<noteq> 0) pb"
  have qb_sub: "set qb \<subseteq> set pb" by (auto simp: qb_def)
  have qb_s: "sorted_wrt (\<lambda>x y. m_index x < m_index y) qb"
    unfolding qb_def using pb_s by (rule sorted_wrt_filter)
  have sh_i: "m_index (sh x) = m_index x + n" if "x \<in> set qb" for x
    using u_pb[of x] that qb_sub by (auto simp add: sh_def)
  have sh_lb: "m_index (sh lb) = b - 1 + n" using u_lb by (simp add: sh_def)
  have s1: "sorted_wrt (\<lambda>x y. m_index x < m_index y) (map sh qb)"
  proof -
    have "sorted_wrt (\<lambda>x y. m_index (sh x) < m_index (sh y)) qb"
      by (rule sorted_wrt_mono_rel[OF _ qb_s]) (simp add: sh_i)
    then show ?thesis by (simp add: sorted_wrt_map)
  qed
  have s2: "\<forall>x \<in> set (map sh qb). m_index x < m_index (sh lb)"
    using pb_lt qb_sub sh_i sh_lb by auto
  have s3: "\<forall>x \<in> set pa. \<forall>y \<in> set (map sh qb @ [sh lb]). m_index x < m_index y"
    using pa_lt sh_i sh_lb by auto
  have srt: "sorted_wrt (\<lambda>x y. m_index x < m_index y) (m_turns R)"
    unfolding tR qb_def[symmetric] using pa_s s1 s2 s3 by (simp add: sorted_wrt_append)
  have ne: "m_turns R \<noteq> []" by (simp add: tR)
  have lastR: "last (m_turns R) = sh lb" by (simp add: tR)
  have szR: "GetSize (m_poly R) = n + b"
    using a1 by (simp add: pts GetSize_def n_def b_def)
  have "m_index (last (m_turns R)) = GetSize (m_poly R) - 1"
    using sh_lb b1 by (simp add: lastR szR)
  moreover have "m_turn (last (m_turns R)) = ReachedYourDestination"
    using mB by (simp add: lastR sh_def lb_def)
  ultimately show ?thesis using srt ne by (simp add: sorted_wrt_map)
qed

lemma AppendRoute_AB_pad:
  "AppendRoute flat_env (route_A [G1, G2]) (route_B []) = Inr (merged_AB [G1, G2, Unknown, Unknown])"
  by (simp add: AppendRoute_def RemoveEndPoint_def AppendTraffic_def IsValid_def GetSize_def
      End_def Begin_def PopBack_def Append_def Update_def u32_def
      route_A_def route_B_def merged_AB_def mk_route_def pts5_def flat_env_def)

lemma AppendRoute_turn_invariant_example:
  "AppendRoute flat_env (route_A [G1, G2]) (route_B [])
       = Inr (merged_AB [G1, G2, Unknown, Unknown])
   \<and> sorted_wrt (<) (map m_index (m_turns (merged_AB [G1, G2, Unknown, Unknown])))
   \<and> m_turn (last (m_turns (merged_AB [G1, G2, Unknown, Unknown]))) = ReachedYourDestination
   \<and> m_index (last (m_turns (merged_AB [G1, G2, Unknown, Unknown])))
       = GetSize (m_poly (merged_AB [G1, G2, Unknown, Unknown])) - 1"
proof -
  have v: "IsValid flat_env (route_B [])"
    by (simp add: IsValid_def GetSize_def route_B_def mk_route_def flat_env_def)
  have a1: "GetSize (m_poly (route_A [G1, G2])) \<noteq> 0"
    by (simp add: GetSize_def route_A_def mk_route_def)
  have b2: "2 \<le> GetSize (m_poly (route_B []))"
    by (simp add: GetSize_def route_B_def mk_route_def)
  have sA: "sorted_wrt (<) (map m_index (m_turns (route_A [G1, G2])))"
    by (simp add: route_A_def mk_route_def)
  have nA: "m_turns (route_A [G1, G2]) \<noteq> []" by (simp add: route_A_def mk_route_def)
  have lA: "m_index (last (m_turns (route_A [G1, G2]))) = GetSize (m_poly (route_A [G1, G2])) - 1"
    by (simp add: GetSize_def route_A_def mk_route_def)
  have sB: "sorted_wrt (<) (map m_index (m_turns (route_B [])))"
    by (simp add: route_B_def mk_route_def)
  have nB: "m_turns (route_B []) \<noteq> []" by (simp add: route_B_def mk_route_def)
  have lB: "m_index (last (m_turns (route_B []))) = GetSize (m_poly (route_B [])) - 1"
    by (simp add: GetSize_def route_B_def mk_route_def)
  have mB: "m_turn (last (m_turns (route_B []))) = ReachedYourDestination"
    by (simp add: route_B_def mk_route_def)
  have fit: "GetSize (m_poly (route_A [G1, G2])) + GetSize (m_poly (route_B [])) \<le> 2 ^ 32"
    by (simp add: GetSize_def route_A_def route_B_def mk_route_def)
  from AppendRoute_turn_invariant [OF v AppendRoute_AB_pad a1 b2 sA nA lA sB nB lB mB fit]
  show ?thesis using AppendRoute_AB_pad by simp
qed



subsection \<open>Time estimator\<close>























subsection \<open>Segment exporter\<close>

lemma takeWhile_before:
  assumes "j < length (takeWhile P xs)"
  shows "P (xs ! j)"
proof -
  have "takeWhile P xs ! j \<in> set (takeWhile P xs)" using assms by simp
  then have "P (takeWhile P xs ! j)" by (rule set_takeWhileD[THEN conjunct2])
  then show ?thesis using assms by (simp add: takeWhile_nth)
qed

lemma count_below_step:
  assumes srt: "sorted_wrt (<) (map f xs)"
    and c: "c = length (takeWhile (\<lambda>x. f x < i) xs)"
    and cl: "c < length xs"
  shows "length (takeWhile (\<lambda>x. f x < Suc i) xs) = (if f (xs ! c) = (i::nat) then c + 1 else c)"
proof -
  have strict: "f (xs ! a) < f (xs ! b)" if "a < b" "b < length xs" for a b
    using sorted_wrt_nth_less[OF srt, of a b] that by simp
  have before: "f (xs ! j) < i" if "j < c" for j
    using takeWhile_before[of j "\<lambda>x. f x < i" xs] that c by simp
  have at: "\<not> f (xs ! c) < i"
    using nth_length_takeWhile[of "\<lambda>x. f x < i" xs] cl c by simp
  show ?thesis
  proof (cases "f (xs ! c) = i")
    case True
    have "takeWhile (\<lambda>x. f x < Suc i) xs = take (c + 1) xs"
    proof (rule takeWhile_eq_take_P_nth)
      fix j assume "j < c + 1" "j < length xs"
      then show "f (xs ! j) < Suc i" using before[of j] True by (cases "j = c") auto
    next
      assume "c + 1 < length xs"
      then have "f (xs ! c) < f (xs ! (c + 1))" using strict[of c "c + 1"] by simp
      then show "\<not> f (xs ! (c + 1)) < Suc i" using True by simp
    qed
    then show ?thesis using True cl by simp
  next
    case False
    have "takeWhile (\<lambda>x. f x < Suc i) xs = take c xs"
    proof (rule takeWhile_eq_take_P_nth)
      fix j assume "j < c" "j < length xs"
      then show "f (xs ! j) < Suc i" using before[of j] by simp
    next
      assume "c < length xs"
      show "\<not> f (xs ! c) < Suc i" using at False by simp
    qed
    then show ?thesis using False cl by simp
  qed
qed

lemma count_below_less:
  assumes "xs \<noteq> []" "\<not> P (last xs)"
  shows "length (takeWhile P xs) < length xs"
proof -
  have "takeWhile P xs \<noteq> xs"
    using assms by (metis last_in_set set_takeWhileD)
  moreover have "length (takeWhile P xs) \<le> length xs" by (rule length_takeWhile_le)
  ultimately show ?thesis
    by (metis le_neq_implies_less takeWhile_eq_take take_all_iff order_refl)
qed


lemma fca_as_count: "first_checkpoint_after tms i = length (takeWhile (\<lambda>t. fst t < Suc i) tms)"
  by (simp add: first_checkpoint_after_def less_Suc_eq_le)

lemma time_carried_index:
  assumes "tms \<noteq> []"
  shows "snd (tms ! (max 1 (first_checkpoint_after tms k) - 1))
     = (if fst (hd tms) \<le> k then time_carried tms k else snd (hd tms))"
proof (cases tms)
  case Nil
  then show ?thesis using assms by simp
next
  case (Cons x xs)
  show ?thesis
  proof (cases "fst x \<le> k")
    case False
    then show ?thesis by (simp add: Cons first_checkpoint_after_def)
  next
    case True
    define tw where "tw = takeWhile (\<lambda>t. fst t \<le> k) tms"
    have twe: "tw = x # takeWhile (\<lambda>t. fst t \<le> k) xs" using True by (simp add: tw_def Cons)
    then have ne: "tw \<noteq> []" by simp
    have c: "first_checkpoint_after tms k = length tw"
      by (simp add: first_checkpoint_after_def tw_def)
    have l: "length tw - 1 < length tw" using ne by (cases tw) auto
    have "tw ! (length tw - 1) = tms ! (length tw - 1)"
      unfolding tw_def by (rule takeWhile_nth) (use l in \<open>simp add: tw_def\<close>)
    then have "last tw = tms ! (length tw - 1)" using ne by (simp add: last_conv_nth)
    moreover have "max 1 (length tw) - 1 = length tw - 1" using ne by (cases tw) auto
    ultimately have "snd (tms ! (max 1 (first_checkpoint_after tms k) - 1)) = snd (last tw)"
      unfolding c by simp
    moreover have "fst (hd tms) \<le> k" using True by (simp add: Cons)
    ultimately show ?thesis unfolding time_carried_def tw_def by simp
  qed
qed

lemma SubrouteLoop_spec:
  assumes tsrt: "sorted_wrt (<) (map m_index (m_turns r))"
    and tne: "m_turns r \<noteq> []" and tlast: "m_index (last (m_turns r)) = N - 1"
    and msrt: "sorted_wrt (<) (map fst (m_times r))"
    and m2: "2 \<le> length (m_times r)" and mlast: "fst (last (m_times r)) = N - 1"
    and N: "N = length (m_points (m_poly r))"
  shows "1 \<le> i \<Longrightarrow> i \<le> N \<Longrightarrow>
     tI = length (takeWhile (\<lambda>t. m_index t < i) (m_turns r)) \<Longrightarrow>
     mI = max 1 (length (takeWhile (\<lambda>t. fst t < i) (m_times r))) \<Longrightarrow>
     dM = vertexArc env (m_points (m_poly r)) (i - 1) \<Longrightarrow>
     length info = i - 1 \<Longrightarrow>
     (\<forall>k. 1 \<le> k \<and> k < i \<longrightarrow> exported_ok env r k (info ! (k - 1))) \<Longrightarrow>
     \<exists>out. SubrouteLoop env r i tI mI dM dMerc info = Inr out \<and> length out = N - 1
        \<and> (\<forall>k. 1 \<le> k \<and> k < N \<longrightarrow> exported_ok env r k (out ! (k - 1)))"
proof (induction "N - i" arbitrary: i tI mI dM dMerc info)
  case 0
  then have "i = N" by simp
  then have "SubrouteLoop env r i tI mI dM dMerc info = Inr info"
    using N by (subst SubrouteLoop.simps) simp
  then show ?case using "0.prems" \<open>i = N\<close> by simp
next
  case (Suc d)
  define turns where "turns = m_turns r"
  define tms where "tms = m_times r"
  define pts where "pts = m_points (m_poly r)"
  have iN: "i < N" using Suc.hyps(2) by simp
  have i1: "1 \<le> i" by (rule Suc.prems(1))
  \<comment> \<open>the turn table\<close>
  have "\<not> m_index (last turns) < i" using tlast iN by (simp add: turns_def)
  then have tIl: "tI < length turns"
    using count_below_less[of turns "\<lambda>t. m_index t < i"] tne Suc.prems(3) by (simp add: turns_def)
  define tI' where "tI' = (if m_index (turns ! tI) = i then tI + 1 else tI)"
  have tI': "tI' = length (takeWhile (\<lambda>t. m_index t < Suc i) turns)"
    unfolding tI'_def
    by (rule count_below_step[symmetric, OF tsrt[folded turns_def] Suc.prems(3)[folded turns_def] tIl])
  have tI'le: "tI' \<le> length turns" using tIl by (simp add: tI'_def)
  \<comment> \<open>the time table\<close>
  define cnt where "cnt = length (takeWhile (\<lambda>t. fst t < i) tms)"
  have mI: "mI = max 1 cnt" using Suc.prems(4) by (simp add: cnt_def tms_def)
  have tne': "tms \<noteq> []" using m2 by (auto simp: tms_def)
  have "\<not> fst (last tms) < i" using mlast iN by (simp add: tms_def)
  then have cntl: "cnt < length tms"
    using count_below_less[of tms "\<lambda>t. fst t < i"] tne' by (simp add: cnt_def)
  have mIl: "mI < length tms" using cntl m2 mI by (simp add: tms_def)
  have strict: "fst (tms ! a) < fst (tms ! b)" if "a < b" "b < length tms" for a b
    using sorted_wrt_nth_less[OF msrt, of a b] that by (simp add: tms_def)
  define mI' where "mI' = (if fst (tms ! mI) = i then mI + 1 else mI)"
  have step: "length (takeWhile (\<lambda>t. fst t < Suc i) tms) = (if fst (tms ! cnt) = i then cnt + 1 else cnt)"
    by (rule count_below_step[OF msrt[folded tms_def] cnt_def cntl])
  have mI': "mI' = max 1 (first_checkpoint_after tms i)"
  proof (cases "cnt = 0")
    case False
    then have "mI = cnt" using mI by simp
    then show ?thesis unfolding mI'_def fca_as_count step using False by simp
  next
    case True
    then have m1: "mI = 1" using mI by simp
    have ge: "\<not> fst (tms ! 0) < i"
      using nth_length_takeWhile[of "\<lambda>t. fst t < i" tms] cntl True by (simp add: cnt_def)
    have "fst (tms ! 0) < fst (tms ! 1)" using strict[of 0 1] m2 by (simp add: tms_def)
    then have "fst (tms ! 1) \<noteq> i" using ge by simp
    then have "mI' = 1" by (simp add: mI'_def m1)
    moreover have "max 1 (first_checkpoint_after tms i) = 1"
      unfolding fca_as_count step using True by simp
    ultimately show ?thesis by simp
  qed
  have mI'0: "mI' \<noteq> 0" using mI' by simp
  \<comment> \<open>the record of vertex \<open>i\<close>\<close>
  define dM' where "dM' = dM + DistanceOnEarth env (pts ! (i - 1)) (pts ! i)"
  define dMerc' where "dMerc' = dMerc + Length env (pts ! (i - 1)) (pts ! i)"
  define rec where "rec = \<lparr>
      seg_turn = (if m_index (turns ! tI) = i then Some (turns ! tI) else None),
      seg_point = pts ! i,
      seg_altitude = (if m_altitudes r = [] then kInvalidAltitude env else m_altitudes r ! i),
      seg_streetName = [],
      seg_distFromBeginningMeters = dM',
      seg_distFromBeginningMerc = dMerc',
      seg_timeFromBeginningS = snd (tms ! (mI' - 1)),
      seg_traffic = (if m_traffic r = [] then Unknown else m_traffic r ! (i - 1))\<rparr>"
  have dM'eq: "dM' = vertexArc env pts i"
  proof -
    obtain j where j: "i = Suc j" using i1 by (cases i) auto
    show ?thesis using Suc.prems(5) by (simp add: dM'_def j pts_def)
  qed
  have "seg_timeFromBeginningS rec = snd (tms ! (max 1 (first_checkpoint_after tms i) - 1))"
    by (simp add: rec_def mI')
  then have rect: "seg_timeFromBeginningS rec
      = (if fst (hd tms) \<le> i then time_carried tms i else snd (hd tms))"
    unfolding time_carried_index[OF tne'] .
  have recok: "exported_ok env r i rec"
    using rect by (simp add: exported_ok_def rec_def dM'eq tms_def pts_def)
  have unfold: "SubrouteLoop env r i tI mI dM dMerc info
      = SubrouteLoop env r (i + 1) tI' mI' dM' dMerc' (info @ [rec])"
    using iN N tIl tI'le mIl mI'0
    unfolding tI'_def mI'_def dM'_def dMerc'_def rec_def turns_def tms_def pts_def
    by (subst SubrouteLoop.simps) simp
  have len': "length (info @ [rec]) = (i + 1) - 1" using Suc.prems(6) i1 by simp
  have inv': "\<forall>k. 1 \<le> k \<and> k < i + 1 \<longrightarrow> exported_ok env r k ((info @ [rec]) ! (k - 1))"
  proof (intro allI impI)
    fix k assume k: "1 \<le> k \<and> k < i + 1"
    show "exported_ok env r k ((info @ [rec]) ! (k - 1))"
    proof (cases "k = i")
      case True
      then show ?thesis using recok Suc.prems(6) by (simp add: nth_append)
    next
      case False
      then have "k < i" using k by simp
      then have "k - 1 < length info" using k Suc.prems(6) by simp
      then show ?thesis using Suc.prems(7) k \<open>k < i\<close> by (simp add: nth_append)
    qed
  qed
  have d: "d = N - (i + 1)" using Suc.hyps(2) by simp
  have "\<exists>out. SubrouteLoop env r (i + 1) tI' mI' dM' dMerc' (info @ [rec]) = Inr out
      \<and> length out = N - 1
      \<and> (\<forall>k. 1 \<le> k \<and> k < N \<longrightarrow> exported_ok env r k (out ! (k - 1)))"
  proof (rule Suc.hyps(1)[OF d])
    show "1 \<le> i + 1" by simp
    show "i + 1 \<le> N" using iN by simp
    show "tI' = length (takeWhile (\<lambda>t. m_index t < i + 1) (m_turns r))"
      using tI' by (simp add: turns_def)
    show "mI' = max 1 (length (takeWhile (\<lambda>t. fst t < i + 1) (m_times r)))"
      using mI' by (simp add: fca_as_count tms_def)
    show "dM' = vertexArc env (m_points (m_poly r)) (i + 1 - 1)"
      using dM'eq by (simp add: pts_def)
    show "length (info @ [rec]) = i + 1 - 1" by (rule len')
    show "\<forall>k. 1 \<le> k \<and> k < i + 1 \<longrightarrow> exported_ok env r k ((info @ [rec]) ! (k - 1))"
      by (rule inv')
  qed
  then show ?case unfolding unfold .
qed


text \<open>Where the export stays inside its tables. Let the route be valid, the turn table
  have strictly increasing indices and end at the final vertex, the optional arrays have
  their sizes, and the time table have at least two entries, strictly increasing indices,
  a first index other than 0 and a last index at the final vertex. Then the export returns
  one record per edge; the record of vertex \<open>k\<close> carries the arc length to \<open>k\<close> and
  the time of the most recent checkpoint at or before \<open>k\<close>, or the time of the first
  checkpoint when \<open>k\<close> lies before it; the last record carries the total distance.\<close>

lemma GetSubrouteInfo_exports:
  assumes valid: "IsValid env r"
    and tne: "m_turns r \<noteq> []"
    and tsrt: "sorted_wrt (<) (map m_index (m_turns r))"
    and tlast: "m_index (last (m_turns r)) = GetSize (m_poly r) - 1"
    and alt: "m_altitudes r = [] \<or> length (m_altitudes r) = GetSize (m_poly r)"
    and trf: "m_traffic r = [] \<or> length (m_traffic r) + 1 = GetSize (m_poly r)"
    and msrt: "sorted_wrt (<) (map fst (m_times r))"
    and m2: "2 \<le> length (m_times r)"
    and mfirst: "fst (m_times r ! 0) \<noteq> 0"
    and mlast: "fst (last (m_times r)) = GetSize (m_poly r) - 1"
  shows "\<exists>info. GetSubrouteInfo env r 0 = Inr info
    \<and> length info = GetSize (m_poly r) - 1
    \<and> (\<forall>k. 1 \<le> k \<and> k < GetSize (m_poly r) \<longrightarrow> exported_ok env r k (info ! (k - 1)))
    \<and> seg_distFromBeginningMeters (last info) = GetTotalDistanceM env (m_poly r)"
proof -
  define N where "N = GetSize (m_poly r)"
  have N: "N = length (m_points (m_poly r))" by (simp add: N_def GetSize_def)
  have mne: "m_times r \<noteq> []" using m2 by auto
  have strict: "fst (m_times r ! a) < fst (m_times r ! b)" if "a < b" "b < length (m_times r)" for a b
    using sorted_wrt_nth_less[OF msrt, of a b] that by simp
  have "fst (m_times r ! 0) < fst (m_times r ! 1)"
    using strict[of 0 1] m2 by simp
  moreover have "fst (m_times r ! 1) \<le> fst (m_times r ! (length (m_times r) - 1))"
  proof (cases "length (m_times r) - 1 = 1")
    case True then show ?thesis by simp
  next
    case False
    then have "1 < length (m_times r) - 1" "length (m_times r) - 1 < length (m_times r)"
      using m2 by simp_all
    then have "fst (m_times r ! 1) < fst (m_times r ! (length (m_times r) - 1))" by (rule strict)
    then show ?thesis by simp
  qed
  ultimately have "2 \<le> fst (last (m_times r))"
    using mfirst mne by (simp add: last_conv_nth)
  then have N3: "3 \<le> N" using mlast by (simp add: N_def)
  have c1: "0 < GetSubrouteCount env r" using valid by (simp add: GetSubrouteCount_def)
  have s1: "sorted (map m_index (m_turns r))" using tsrt by (rule strict_sorted_imp_sorted)
  have s2: "sorted (map fst (m_times r))" using msrt by (rule strict_sorted_imp_sorted)
  have checks: "GetSubrouteInfo env r 0 =
      SubrouteLoop env r 1 (if m_index (m_turns r ! 0) = 0 then 1 else 0) 1 0 0 []"
    using c1 valid tne mne s1 s2 alt trf tlast mlast N3 mfirst
    by (auto simp add: GetSubrouteInfo_def Let_def N_def)
  have t0: "(if m_index (m_turns r ! 0) = 0 then 1 else 0)
      = length (takeWhile (\<lambda>t. m_index t < 1) (m_turns r))"
  proof -
    have "takeWhile (\<lambda>t. m_index t < 0) (m_turns r) = []"
      by (cases "m_turns r") simp_all
    then have c0: "0 = length (takeWhile (\<lambda>t. m_index t < 0) (m_turns r))" by simp
    have l0: "0 < length (m_turns r)" using tne by simp
    have "length (takeWhile (\<lambda>t. m_index t < Suc 0) (m_turns r))
        = (if m_index (m_turns r ! 0) = 0 then 0 + 1 else 0)"
      by (rule count_below_step[OF tsrt c0 l0])
    then show ?thesis by simp
  qed
  have "takeWhile (\<lambda>t. fst t < 1) (m_times r) = []"
    using mfirst mne by (cases "m_times r") auto
  then have m0: "(1::nat) = max 1 (length (takeWhile (\<lambda>t. fst t < 1) (m_times r)))" by simp
  have "\<exists>out. SubrouteLoop env r 1 (if m_index (m_turns r ! 0) = 0 then 1 else 0) 1 0 0 [] = Inr out
      \<and> length out = N - 1
      \<and> (\<forall>k. 1 \<le> k \<and> k < N \<longrightarrow> exported_ok env r k (out ! (k - 1)))"
  proof (rule SubrouteLoop_spec[OF tsrt tne tlast[folded N_def] msrt m2 mlast[folded N_def] N])
    show "(1::nat) \<le> 1" by simp
    show "1 \<le> N" using N3 by simp
    show "(if m_index (m_turns r ! 0) = 0 then 1 else 0)
      = length (takeWhile (\<lambda>t. m_index t < 1) (m_turns r))" by (rule t0)
    show "(1::nat) = max 1 (length (takeWhile (\<lambda>t. fst t < 1) (m_times r)))" by (rule m0)
    show "0 = vertexArc env (m_points (m_poly r)) (1 - 1)" by simp
    show "length ([]::SegmentInfo list) = 1 - 1" by simp
    show "\<forall>k. 1 \<le> k \<and> k < 1 \<longrightarrow> exported_ok env r k ([] ! (k - 1))" by simp
  qed
  then obtain out where o: "GetSubrouteInfo env r 0 = Inr out" "length out = N - 1"
    "\<forall>k. 1 \<le> k \<and> k < N \<longrightarrow> exported_ok env r k (out ! (k - 1))"
    unfolding checks by blast
  have one: "out \<noteq> []" using o(2) N3 by auto
  have "1 \<le> N - 1 \<and> N - 1 < N" using N3 by simp
  then have "exported_ok env r (N - 1) (out ! (N - 1 - 1))" using o(3) by blast
  then have "seg_distFromBeginningMeters (last out) = GetTotalDistanceM env (m_poly r)"
    using one o(2) by (simp add: last_conv_nth exported_ok_def GetTotalDistanceM_def N_def)
  then show ?thesis using o unfolding N_def by blast
qed

text \<open>Claim C6. The export does not produce its records for every table that passes its
  checks. On the scenario of section 8 (five vertices, one checkpoint at vertex 4) the
  counter \<^verbatim>\<open>timeIdx\<close> starts at 1 and the first iteration reads \<^verbatim>\<open>m_times[1]\<close> of a
  table of one entry. On a time table that starts at vertex 0 the counter starts at 0 and
  the first record reads \<^verbatim>\<open>m_times[timeIdx - 1]\<close>.\<close>

theorem GetSubrouteInfo_reads_outside_time_table:
  "GetSubrouteInfo flat_env turn_route 0 = Inl OutOfRange
   \<and> GetSubrouteInfo flat_env (route_B []) 0 = Inl OutOfRange"
  by (simp add: GetSubrouteInfo_def GetSubrouteCount_def IsValid_def GetSize_def Let_def
      SubrouteLoop.simps turn_route_def route_B_def mk_route_def pts5_def flat_env_def)

end
